theory Spec2Isabelle
  imports
    Main
    "HOL-Library.AList"
    "HOL-Library.Char_ord"
    "HOL-Library.List_Lexorder"
    "HOL-Library.Product_Lexorder"
    "HOL-Library.Multiset"
begin

section \<open>Paths\<close>

text \<open>
  The plugin manipulates file locations with \<^verbatim>\<open>os.path.dirname\<close> and
  \<^verbatim>\<open>os.path.join\<close>. Both belong to the Python standard library; they are embedded
  here after their POSIX implementation (\<^verbatim>\<open>posixpath\<close>), on \<^typ>\<open>string\<close>:
  \<^verbatim>\<open>
  def dirname(p):
      i = p.rfind('/') + 1
      head = p[:i]
      if head and head != '/' * len(head):
          head = head.rstrip('/')
      return head
  \<close>
\<close>

definition sep :: char where
  "sep = CHR ''/''"

definition rstrip_sep :: "string \<Rightarrow> string" where
  "rstrip_sep s = rev (dropWhile (\<lambda>c. c = sep) (rev s))"

definition head_of_path :: "string \<Rightarrow> string" where
  "head_of_path p = rev (dropWhile (\<lambda>c. c \<noteq> sep) (rev p))"

definition dirname :: "string \<Rightarrow> string" where
  "dirname p =
     (let head = head_of_path p
      in if head \<noteq> [] \<and> head \<noteq> replicate (length head) sep then rstrip_sep head else head)"

text \<open>
  \<^verbatim>\<open>os.path.join(a, b)\<close> with one extra component: an absolute \<open>b\<close> replaces
  \<open>a\<close>; otherwise \<open>b\<close> is appended, after a separator unless \<open>a\<close> is empty or
  already ends with one.
\<close>

definition path_join :: "string \<Rightarrow> string \<Rightarrow> string" where
  "path_join a b =
     (if take 1 b = [sep] then b
      else if a = [] \<or> last a = sep then a @ b
      else a @ [sep] @ b)"

lemma rstrip_sep_prefix: "\<exists>r. s = rstrip_sep s @ r"
proof -
  have "rev s = takeWhile (\<lambda>c. c = sep) (rev s) @ dropWhile (\<lambda>c. c = sep) (rev s)"
    by simp
  then have "s = rev (dropWhile (\<lambda>c. c = sep) (rev s)) @ rev (takeWhile (\<lambda>c. c = sep) (rev s))"
    by (metis rev_append rev_rev_ident)
  then show ?thesis
    unfolding rstrip_sep_def by blast
qed

lemma head_of_path_prefix: "\<exists>r. p = head_of_path p @ r"
proof -
  have "rev p = takeWhile (\<lambda>c. c \<noteq> sep) (rev p) @ dropWhile (\<lambda>c. c \<noteq> sep) (rev p)"
    by simp
  then have "p = rev (dropWhile (\<lambda>c. c \<noteq> sep) (rev p)) @ rev (takeWhile (\<lambda>c. c \<noteq> sep) (rev p))"
    by (metis rev_append rev_rev_ident)
  then show ?thesis
    unfolding head_of_path_def by blast
qed

lemma dirname_prefix: "\<exists>r. p = dirname p @ r"
proof -
  obtain r1 where r1: "p = head_of_path p @ r1"
    using head_of_path_prefix by blast
  obtain r2 where r2: "head_of_path p = rstrip_sep (head_of_path p) @ r2"
    using rstrip_sep_prefix by blast
  show ?thesis
  proof (cases "head_of_path p \<noteq> [] \<and> head_of_path p \<noteq> replicate (length (head_of_path p)) sep")
    case True
    then have "dirname p = rstrip_sep (head_of_path p)"
      by (simp add: dirname_def)
    moreover have "p = rstrip_sep (head_of_path p) @ (r2 @ r1)"
      using r1 r2 by (metis append_assoc)
    ultimately show ?thesis by metis
  next
    case False
    then have "dirname p = head_of_path p"
      by (auto simp: dirname_def Let_def)
    then show ?thesis using r1 by metis
  qed
qed

lemma dirname_length_le: "length (dirname p) \<le> length p"
proof -
  obtain r where "p = dirname p @ r" using dirname_prefix by blast
  then have "length p = length (dirname p) + length r"
    by (metis length_append)
  then show ?thesis by simp
qed

lemma dirname_shorter: "dirname p \<noteq> p \<Longrightarrow> length (dirname p) < length p"
proof -
  assume ne: "dirname p \<noteq> p"
  obtain r where r: "p = dirname p @ r" using dirname_prefix by blast
  with ne have "r \<noteq> []" by auto
  moreover from r have "length p = length (dirname p) + length r"
    by (metis length_append)
  ultimately show ?thesis by simp
qed

section \<open>The search order of a location\<close>

text \<open>
  \<^verbatim>\<open>
  def _get_fixture_search_order(func_path):
      func_dir = os.path.dirname(func_path)
      if func_dir == func_path:
          return []
      conftest_path = os.path.join(func_dir, 'conftest.py')
      return [conftest_path] + _get_fixture_search_order(func_dir)
  \<close>
  The recursion is on the parent directory, which is not structural: the function is
  defined with its termination proof, the length of the path being the measure.
\<close>

function get_fixture_search_order :: "string \<Rightarrow> string list" where
  "get_fixture_search_order func_path =
     (let func_dir = dirname func_path
      in if func_dir = func_path then []
         else path_join func_dir ''conftest.py'' # get_fixture_search_order func_dir)"
  by pat_completeness auto
termination
  by (relation "measure length") (auto simp: dirname_shorter)

declare get_fixture_search_order.simps [simp del]


section \<open>Fixture definitions and the host\<close>

text \<open>
  A Python function object is opaque to the plugin: it reads its \<^verbatim>\<open>__module__\<close> and
  hands the object to \<^verbatim>\<open>inspect.getfile\<close> and \<^verbatim>\<open>getlocation\<close>. A
  \<^verbatim>\<open>FixtureDef\<close> of pytest is read through \<^verbatim>\<open>baseid\<close>, \<^verbatim>\<open>func\<close>
  and \<^verbatim>\<open>argnames\<close>.
\<close>

datatype pyfunc = PyFunc (func_module: string) (func_ident: nat)

record fixture_def =
  baseid :: string
  func :: pyfunc
  argnames :: "string list"

text \<open>The exceptions that the modelled code can raise; all are subclasses of \<^verbatim>\<open>Exception\<close>.\<close>

datatype py_error = ValueError | AssertionError | IndexError | OSError nat | OtherException string

text \<open>
  Everything the plugin asks of its surroundings is a field of the host: the working
  directory, \<^verbatim>\<open>inspect.getfile\<close>, \<^verbatim>\<open>os.path.relpath\<close>, pytest's
  \<^verbatim>\<open>getlocation\<close> and \<^verbatim>\<open>bestrelpath\<close>, and the outcome of the file-system
  and renderer calls (\<open>None\<close> when the call returns, the exception otherwise).
\<close>

record host =
  getcwd :: string
  getfile :: "pyfunc \<Rightarrow> string"
  relpath :: "string \<Rightarrow> string \<Rightarrow> string"
  getlocation :: "pyfunc \<Rightarrow> string"
  bestrelpath :: "string \<Rightarrow> string"
  makedirs :: "string \<Rightarrow> nat option"
  isdir :: "string \<Rightarrow> bool"
  dot_write :: "string \<Rightarrow> string option \<Rightarrow> py_error option"

section \<open>Selecting a definition\<close>

text \<open>\<^verbatim>\<open>sys.maxsize\<close> of a 64-bit CPython.\<close>

definition sys_maxsize :: nat where
  "sys_maxsize = 9223372036854775807"

text \<open>\<^verbatim>\<open>list.index\<close>: the first position of an element, \<open>None\<close> for the ValueError.\<close>

fun list_index :: "'a list \<Rightarrow> 'a \<Rightarrow> nat option" where
  "list_index [] x = None"
| "list_index (y # ys) x = (if y = x then Some 0 else map_option Suc (list_index ys x))"

text \<open>
  \<^verbatim>\<open>
  def sort_key(fixture_def):
      try:
          return search_order.index(get_func_path(fixture_def.func))
      except ValueError:
          return sys.maxsize
  \<close>
  The closure's free variables \<open>search_order\<close> and \<open>get_func_path\<close> are arguments here.
\<close>

definition sort_key_fd :: "string list \<Rightarrow> (pyfunc \<Rightarrow> string) \<Rightarrow> fixture_def \<Rightarrow> nat" where
  "sort_key_fd search_order get_func_path fixture_def =
     (case list_index search_order (get_func_path (func fixture_def)) of
        Some i \<Rightarrow> i
      | None \<Rightarrow> sys_maxsize)"

text \<open>
  Python's \<^verbatim>\<open>sorted(xs, key=k)\<close> is a stable sort. The stable sorted arrangement of a
  list is unique, so the insertion sort \<^const>\<open>sort_key\<close> computes the same list.
\<close>

definition py_sorted :: "('a \<Rightarrow> 'k::linorder) \<Rightarrow> 'a list \<Rightarrow> 'a list" where
  "py_sorted key xs = sort_key key xs"

text \<open>
  The first lines of \<^verbatim>\<open>_find_fixture_def\<close>:
  \<^verbatim>\<open>
  search_order = _get_fixture_search_order(os.path.dirname(func_path))
  if source_fixture_name != fixture_name:
      # Do not include same file in search path when overriding a fixture.
      search_order.insert(0, func_path)
  \<close>
\<close>

definition find_search_order :: "string \<Rightarrow> string \<Rightarrow> string \<Rightarrow> string list" where
  "find_search_order source_fixture_name func_path fixture_name =
     (let search_order = get_fixture_search_order (dirname func_path)
      in if source_fixture_name \<noteq> fixture_name then func_path # search_order else search_order)"

text \<open>
  \<^verbatim>\<open>_find_fixture_def\<close>: the KeyError of the registry lookup and the IndexError of
  \<^verbatim>\<open>[0]\<close> on an empty list both return \<open>None\<close>.
\<close>

definition find_fixture_def ::
  "string \<Rightarrow> string \<Rightarrow> string \<Rightarrow> (string \<rightharpoonup> fixture_def list) \<Rightarrow> (pyfunc \<Rightarrow> string)
     \<Rightarrow> fixture_def option" where
  "find_fixture_def source_fixture_name func_path fixture_name name2fixturedefs get_func_path =
     (let search_order = find_search_order source_fixture_name func_path fixture_name
      in case name2fixturedefs fixture_name of
           None \<Rightarrow> None
         | Some target_fixture_defs \<Rightarrow>
             (case py_sorted (sort_key_fd search_order get_func_path) target_fixture_defs of
                [] \<Rightarrow> None
              | fixture_def # _ \<Rightarrow> Some fixture_def))"


section \<open>The fixture graph\<close>

text \<open>
  \<^verbatim>\<open>
  def _get_cluster_name(func_path, cwd):
      return os.path.relpath(func_path, cwd) if func_path.startswith(cwd) else func_path
  \<close>
\<close>

definition startswith :: "string \<Rightarrow> string \<Rightarrow> bool" where
  "startswith s p = (take (length p) s = p)"

definition get_cluster_name :: "host \<Rightarrow> string \<Rightarrow> string \<Rightarrow> string" where
  "get_cluster_name h func_path cwd =
     (if startswith func_path cwd then relpath h func_path cwd else func_path)"

text \<open>
  An element of a node's \<open>depended_list\<close>. The entries built from a definition's
  \<open>argnames\<close> are pairs (cluster, name); the entry of the \<open>func_args\<close> node holds the
  bare argument names that \<^verbatim>\<open>save_fixture_graph\<close> received.
\<close>

datatype dep = NodeRef string string | ArgName string

text \<open>
  \<^verbatim>\<open>
  def _get_fixture_node_name(fixture_name, fixture_def, cwd, get_func_path):
      if fixture_def is None:
          return '', ''
      func_path = get_func_path(fixture_def.func)
      return _get_cluster_name(func_path, cwd), fixture_name
  \<close>
\<close>

definition get_fixture_node_name ::
  "host \<Rightarrow> string \<Rightarrow> fixture_def option \<Rightarrow> string \<Rightarrow> (pyfunc \<Rightarrow> string) \<Rightarrow> dep" where
  "get_fixture_node_name h fixture_name fixture_def cwd get_func_path =
     (case fixture_def of
        None \<Rightarrow> NodeRef [] []
      | Some fd \<Rightarrow> NodeRef (get_cluster_name h (get_func_path (func fd)) cwd) fixture_name)"

text \<open>
  \<open>data\<close> is a \<^verbatim>\<open>defaultdict(dict)\<close>: cluster name to node name to
  (depended list, colour). Python dictionaries keep insertion order and an assignment to
  an existing key keeps its position, which is \<^const>\<open>AList.update\<close> on an association
  list.
\<close>

type_synonym node_data = "dep list \<times> string"
type_synonym graph_data = "(string \<times> (string \<times> node_data) list) list"

definition data_get :: "graph_data \<Rightarrow> string \<Rightarrow> (string \<times> node_data) list" where
  "data_get data c = (case map_of data c of None \<Rightarrow> [] | Some d \<Rightarrow> d)"

definition data_set :: "string \<Rightarrow> string \<Rightarrow> node_data \<Rightarrow> graph_data \<Rightarrow> graph_data" where
  "data_set c n v data = AList.update c (AList.update n v (data_get data c)) data"

text \<open>The body of the inner loop of \<^verbatim>\<open>save_fixture_graph\<close>, for one definition.\<close>

definition add_fixture_def ::
  "host \<Rightarrow> (string \<times> fixture_def list) list \<Rightarrow> string \<Rightarrow> string \<Rightarrow> fixture_def
     \<Rightarrow> graph_data \<Rightarrow> graph_data" where
  "add_fixture_def h name2fixturedefs cwd fixture_name fixture_def data =
     (let func_path = getfile h (func fixture_def);
          cluster_name = get_cluster_name h func_path cwd;
          color = ''green''
      in data_set cluster_name fixture_name
           (map (\<lambda>argname.
                   get_fixture_node_name h argname
                     (find_fixture_def fixture_name func_path argname
                        (map_of name2fixturedefs) (getfile h))
                     cwd (getfile h))
                (argnames fixture_def),
            color)
           data)"

definition add_fixture_defs ::
  "host \<Rightarrow> (string \<times> fixture_def list) list \<Rightarrow> string \<Rightarrow> string \<times> fixture_def list
     \<Rightarrow> graph_data \<Rightarrow> graph_data" where
  "add_fixture_defs h name2fixturedefs cwd entry data =
     (case entry of (fixture_name, fixture_defs) \<Rightarrow>
        if fixture_name = ''request'' then data
        else fold (add_fixture_def h name2fixturedefs cwd fixture_name) fixture_defs data)"

text \<open>
  Lines 205 to 227: the \<open>func_args\<close> node first (when \<open>func_args\<close> is neither
  \<open>None\<close> nor empty), then one entry for every definition of the registry.
\<close>

definition fixture_graph_data ::
  "host \<Rightarrow> (string \<times> fixture_def list) list \<Rightarrow> string list option \<Rightarrow> graph_data" where
  "fixture_graph_data h name2fixturedefs func_args =
     (let data = (case func_args of
                    None \<Rightarrow> []
                  | Some [] \<Rightarrow> []
                  | Some (a # as) \<Rightarrow>
                      data_set [] ''func_args'' (map ArgName (a # as), ''red'') []);
          cwd = getcwd h @ [sep]
      in fold (add_fixture_defs h name2fixturedefs cwd) name2fixturedefs data)"

text \<open>
  The graph that the \<^verbatim>\<open>pydot\<close> calls build: the clusters in the order added, each
  with its nodes, and the edges in the order added. A node is known by its name; an edge
  names its two end points.
\<close>

record node =
  node_name :: string
  node_label :: string
  fillcolor :: string

record graph =
  subgraphs :: "(string \<times> node list) list"
  edges :: "(string \<times> string) list"

text \<open>
  \<^verbatim>\<open>for dest_cluster, dest_name in depended_list\<close> unpacks each element into two
  variables. A pair unpacks into its components; a string unpacks into its characters
  and raises ValueError unless it has exactly two.
\<close>

fun unpack_dep :: "dep \<Rightarrow> py_error + string \<times> string" where
  "unpack_dep (NodeRef dest_cluster dest_name) = Inr (dest_cluster, dest_name)"
| "unpack_dep (ArgName [a, b]) = Inr ([a], [b])"
| "unpack_dep (ArgName _) = Inl ValueError"

fun node_edges :: "string \<Rightarrow> dep list \<Rightarrow> py_error + (string \<times> string) list" where
  "node_edges src [] = Inr []"
| "node_edges src (d # ds) =
     (case unpack_dep d of
        Inl e \<Rightarrow> Inl e
      | Inr (dest_cluster, dest_name) \<Rightarrow>
          (case node_edges src ds of
             Inl e \<Rightarrow> Inl e
           | Inr es \<Rightarrow>
               Inr (if dest_name = [] then es
                    else (src, dest_cluster @ ''/'' @ dest_name) # es)))"

text \<open>The loop over the nodes of one cluster: its nodes and the edges leaving them.\<close>

fun cluster_nodes ::
  "string \<Rightarrow> (string \<times> node_data) list \<Rightarrow> py_error + node list \<times> (string \<times> string) list" where
  "cluster_nodes func_path [] = Inr ([], [])"
| "cluster_nodes func_path ((name, depended_list, color) # rest) =
     (let nd = \<lparr>node_name = func_path @ ''/'' @ name, node_label = name, fillcolor = color\<rparr>
      in case node_edges (node_name nd) depended_list of
           Inl e \<Rightarrow> Inl e
         | Inr es \<Rightarrow>
             (case cluster_nodes func_path rest of
                Inl e \<Rightarrow> Inl e
              | Inr (ns, es') \<Rightarrow> Inr (nd # ns, es @ es')))"

text \<open>Lines 231 to 259: the loop over the clusters.\<close>

fun graph_of_data :: "graph_data \<Rightarrow> py_error + graph" where
  "graph_of_data [] = Inr \<lparr>subgraphs = [], edges = []\<rparr>"
| "graph_of_data ((func_path, subgraph_data) # rest) =
     (case cluster_nodes func_path subgraph_data of
        Inl e \<Rightarrow> Inl e
      | Inr (ns, es) \<Rightarrow>
          (case graph_of_data rest of
             Inl e \<Rightarrow> Inl e
           | Inr g \<Rightarrow> Inr \<lparr>subgraphs = (func_path, ns) # subgraphs g, edges = es @ edges g\<rparr>))"

definition build_fixture_graph ::
  "host \<Rightarrow> (string \<times> fixture_def list) list \<Rightarrow> string list option \<Rightarrow> py_error + graph" where
  "build_fixture_graph h name2fixturedefs func_args =
     graph_of_data (fixture_graph_data h name2fixturedefs func_args)"

definition graph_node_names :: "graph \<Rightarrow> string set" where
  "graph_node_names g = node_name ` (\<Union>(c, ns) \<in> set (subgraphs g). set ns)"


section \<open>Exporting the graph\<close>

text \<open>What the plugin does to the outside: lines on the terminal writer and calls on the file system.\<close>

datatype event =
    TwLine string
  | TwSep string string
  | MakeDirs string
  | GraphWrite graph string "string option"

record config_option =
  option_fixture_name :: string
  fixture_graph_output_dir :: string
  fixture_graph_output_type :: string

text \<open>
  \<^verbatim>\<open>
  def mkdir_recursive(path):
      try:
          os.makedirs(path)
      except OSError as exc:
          if exc.errno == errno.EEXIST and os.path.isdir(path):
              pass
          else:
              raise
  \<close>
\<close>

definition EEXIST :: nat where
  "EEXIST = 17"

definition mkdir_recursive :: "host \<Rightarrow> string \<Rightarrow> py_error option" where
  "mkdir_recursive h path =
     (case makedirs h path of
        None \<Rightarrow> None
      | Some errno \<Rightarrow> if errno = EEXIST \<and> isdir h path then None else Some (OSError errno))"

definition render_hint :: "string \<Rightarrow> event list" where
  "render_hint filename =
     [TwLine (''graphvis wasn'' @ [CHR 0x27] @ ''t found in PATH''),
      TwLine (''You can convert it to a PNG using:'' @ [CHR 0x0A, CHR 0x09, CHR 0x27]
              @ ''dot -Tpng '' @ filename @ ''.dot -o '' @ filename @ ''.png'' @ [CHR 0x27])]"

text \<open>
  Lines 262 to 275. The result is the trace of events together with the exception that
  left the function, if any. The first \<^verbatim>\<open>graph.write\<close> is outside the
  \<^verbatim>\<open>try\<close>; the second is inside it, under \<^verbatim>\<open>except Exception\<close>.
\<close>

definition export_graph ::
  "host \<Rightarrow> config_option \<Rightarrow> graph \<Rightarrow> string \<Rightarrow> event list \<times> py_error option" where
  "export_graph h option g filename0 =
     (let log_dir = fixture_graph_output_dir option;
          output_type = fixture_graph_output_type option
      in case mkdir_recursive h log_dir of
           Some e \<Rightarrow> ([MakeDirs log_dir], Some e)
         | None \<Rightarrow>
             (let filename = path_join log_dir filename0;
                  tr = [MakeDirs log_dir, TwLine [], TwSep ''-'' ''fixture-graph'',
                        TwLine (''created '' @ filename @ ''.dot.''),
                        GraphWrite g (filename @ ''.dot'') None]
              in case dot_write h (filename @ ''.dot'') None of
                   Some e \<Rightarrow> (tr, Some e)
                 | None \<Rightarrow>
                     (let target = filename @ ''.'' @ output_type;
                          tr' = tr @ [GraphWrite g target (Some output_type)]
                      in case dot_write h target (Some output_type) of
                           None \<Rightarrow> (tr' @ [TwLine (''created '' @ target @ ''.'')], None)
                         | Some e \<Rightarrow> (tr' @ render_hint filename, None))))"

definition save_fixture_graph ::
  "host \<Rightarrow> config_option \<Rightarrow> (string \<times> fixture_def list) list \<Rightarrow> string \<Rightarrow> string list option
     \<Rightarrow> event list \<times> py_error option" where
  "save_fixture_graph h option name2fixturedefs filename func_args =
     (case build_fixture_graph h name2fixturedefs func_args of
        Inl e \<Rightarrow> ([], Some e)
      | Inr g \<Rightarrow> export_graph h option g filename)"

section \<open>Showing duplicates\<close>

text \<open>
  The tuple that \<^verbatim>\<open>_show_fixture_duplicates_main\<close> collects for a definition:
  the length of its \<open>baseid\<close>, the module of its function, the location of the function
  relative to the working directory, and the definition.
\<close>

type_synonym fixture = "nat \<times> string \<times> string \<times> fixture_def"

definition bestrel :: "fixture \<Rightarrow> string" where
  "bestrel f = fst (snd (snd f))"

definition verbose :: int where
  "verbose = 1"

text \<open>
  The loop of \<^verbatim>\<open>print_duplicates\<close>, with the local \<open>previous_argname\<close> as an
  argument. \<^verbatim>\<open>argname[0]\<close> is evaluated only when \<open>verbose <= 0\<close>, and raises
  IndexError on the empty string.
\<close>

fun print_rows :: "string \<Rightarrow> fixture list \<Rightarrow> string option \<Rightarrow> py_error + event list" where
  "print_rows argname [] previous_argname = Inr []"
| "print_rows argname (f # fs) previous_argname =
     (let header = (if previous_argname \<noteq> Some argname
                    then [TwLine [], TwSep ''-'' argname] else [])
      in if verbose \<le> 0 \<and> argname = [] then Inl IndexError
         else (case print_rows argname fs (Some argname) of
                 Inl e \<Rightarrow> Inl e
               | Inr out \<Rightarrow>
                   if verbose \<le> 0 \<and> hd argname = CHR ''_'' then Inr (header @ out)
                   else Inr (header @ TwLine (bestrel f) # out)))"

text \<open>
  \<^verbatim>\<open>
  def print_duplicates(argname, fixtures, previous_argname):
      if len(fixtures) > 1:
          fixtures = sorted(fixtures, key=lambda key: key[2])
          for baseid, module, bestrel, fixturedef in fixtures:
              ...
  \<close>
\<close>

definition print_duplicates :: "string \<Rightarrow> fixture list \<Rightarrow> string option \<Rightarrow> py_error + event list" where
  "print_duplicates argname fixtures previous_argname =
     (if length fixtures > 1
      then print_rows argname (py_sorted bestrel fixtures) previous_argname
      else Inr [])"

text \<open>
  The fixture manager of the session: the registry \<^verbatim>\<open>_arg2fixturedefs\<close>, in the
  order of its keys, and pytest's \<^verbatim>\<open>getfixturedefs(argname, nodeid)\<close>, which
  returns \<open>None\<close> or the definitions visible from the node. A session holds the node ids
  of its items.
\<close>

record fixture_manager =
  arg2fixturedefs :: "(string \<times> fixture_def list) list"
  getfixturedefs :: "string \<Rightarrow> string \<Rightarrow> fixture_def list option"

record session =
  items :: "string list"
  fixturemanager :: fixture_manager

text \<open>\<open>available\<close> is a \<^verbatim>\<open>defaultdict(list)\<close>: reading a missing key inserts it.\<close>

type_synonym available = "(string \<times> fixture list) list"

definition avail_get :: "available \<Rightarrow> string \<Rightarrow> fixture list" where
  "avail_get available argname = (case map_of available argname of None \<Rightarrow> [] | Some fs \<Rightarrow> fs)"

text \<open>
  Lines 104 to 113, for one definition: the tuple is built, and appended to the list of
  the name unless a tuple of that list already has its location. Reading
  \<^verbatim>\<open>available[argname]\<close> creates the key when it is missing.
\<close>

definition fixture_of :: "host \<Rightarrow> fixture_def \<Rightarrow> fixture" where
  "fixture_of h fixturedef =
     (let loc = getlocation h (func fixturedef)
      in (length (baseid fixturedef), func_module (func fixturedef), bestrelpath h loc, fixturedef))"

definition append_new :: "fixture list \<Rightarrow> fixture \<Rightarrow> fixture list" where
  "append_new seen fixture =
     (if bestrel fixture \<notin> set (map bestrel seen) then seen @ [fixture] else seen)"

definition add_fixture :: "host \<Rightarrow> string \<Rightarrow> fixture_def \<Rightarrow> available \<Rightarrow> available" where
  "add_fixture h argname fixturedef available =
     AList.update argname (append_new (avail_get available argname) (fixture_of h fixturedef))
       available"

text \<open>Lines 97 to 113: the loop over the names, for one item.\<close>

fun scan_item ::
  "host \<Rightarrow> fixture_manager \<Rightarrow> string \<Rightarrow> string list \<Rightarrow> available \<Rightarrow> py_error + available" where
  "scan_item h fm nodeid [] available = Inr available"
| "scan_item h fm nodeid (argname # rest) available =
     (case getfixturedefs fm argname nodeid of
        None \<Rightarrow> Inl AssertionError
      | Some fixturedefs \<Rightarrow>
          scan_item h fm nodeid rest (fold (add_fixture h argname) fixturedefs available))"

fun scan_items ::
  "host \<Rightarrow> fixture_manager \<Rightarrow> string list \<Rightarrow> string list \<Rightarrow> available \<Rightarrow> py_error + available" where
  "scan_items h fm [] names available = Inr available"
| "scan_items h fm (nodeid # rest) names available =
     (case scan_item h fm nodeid names available of
        Inl e \<Rightarrow> Inl e
      | Inr available' \<Rightarrow> scan_items h fm rest names available')"

text \<open>
  Lines 91 to 95: the names to scan, the filter alone when it is set and registered,
  all registered names otherwise.
\<close>

definition scanned_names :: "string \<Rightarrow> fixture_manager \<Rightarrow> string list" where
  "scanned_names fixture_name fm =
     (if fixture_name \<noteq> [] \<and> fixture_name \<in> set (map fst (arg2fixturedefs fm))
      then [fixture_name]
      else map fst (arg2fixturedefs fm))"

definition collect_available :: "host \<Rightarrow> string \<Rightarrow> session \<Rightarrow> py_error + available" where
  "collect_available h fixture_name s =
     scan_items h (fixturemanager s) (items s) (scanned_names fixture_name (fixturemanager s)) []"

text \<open>Lines 118 to 123: the report of every name, in the order of the names.\<close>

fun print_all :: "available \<Rightarrow> string option \<Rightarrow> py_error + event list" where
  "print_all [] previous_argname = Inr []"
| "print_all ((argname, fixtures) # rest) previous_argname =
     (case print_duplicates argname fixtures previous_argname of
        Inl e \<Rightarrow> Inl e
      | Inr out \<Rightarrow>
          (case print_all rest (Some argname) of
             Inl e \<Rightarrow> Inl e
           | Inr out' \<Rightarrow> Inr (out @ out')))"

definition show_fixture_duplicates_main :: "host \<Rightarrow> config_option \<Rightarrow> session \<Rightarrow> py_error + event list" where
  "show_fixture_duplicates_main h option s =
     (case collect_available h (option_fixture_name option) s of
        Inl e \<Rightarrow> Inl e
      | Inr available \<Rightarrow>
          if option_fixture_name option \<noteq> []
          then print_duplicates (option_fixture_name option) (avail_get available (option_fixture_name option)) None
          else print_all (py_sorted fst available) None)"


text \<open>
  The fixtures met for a name \<open>n\<close> while scanning, in the order of the scan: for every
  item, for every scanned name equal to \<open>n\<close>, the tuples of the definitions that
  \<^verbatim>\<open>getfixturedefs\<close> returns. These two functions only serve to state properties of
  the collection.
\<close>

definition item_fixtures :: "host \<Rightarrow> fixture_manager \<Rightarrow> string \<Rightarrow> string list \<Rightarrow> string \<Rightarrow> fixture list" where
  "item_fixtures h fm nodeid names n =
     concat (map (\<lambda>argname.
                    if argname = n
                    then (case getfixturedefs fm argname nodeid of
                            None \<Rightarrow> []
                          | Some fixturedefs \<Rightarrow> map (fixture_of h) fixturedefs)
                    else [])
                 names)"

definition met_fixtures :: "host \<Rightarrow> fixture_manager \<Rightarrow> string list \<Rightarrow> string list \<Rightarrow> string \<Rightarrow> fixture list" where
  "met_fixtures h fm nodeids names n =
     concat (map (\<lambda>nodeid. item_fixtures h fm nodeid names n) nodeids)"

text \<open>
  The nodes that a \<open>data\<close> dictionary holds, as pairs of cluster and name, and the
  depended list that it holds for a node. The cluster and the depended list that
  \<^const>\<open>add_fixture_def\<close> computes for a definition.
\<close>

definition data_nodes :: "graph_data \<Rightarrow> (string \<times> string) set" where
  "data_nodes data = {(c, n). \<exists>sub. (c, sub) \<in> set data \<and> n \<in> fst ` set sub}"

definition data_deps :: "graph_data \<Rightarrow> (string \<times> string \<times> dep list) set" where
  "data_deps data = {(c, n, ds). \<exists>sub col. (c, sub) \<in> set data \<and> (n, ds, col) \<in> set sub}"

definition cluster_of :: "host \<Rightarrow> fixture_def \<Rightarrow> string" where
  "cluster_of h fd = get_cluster_name h (getfile h (func fd)) (getcwd h @ [sep])"

definition resolved_deps :: "host \<Rightarrow> (string \<times> fixture_def list) list \<Rightarrow> string \<Rightarrow> fixture_def \<Rightarrow> dep list" where
  "resolved_deps h name2fixturedefs fixture_name fd =
     map (\<lambda>argname.
            get_fixture_node_name h argname
              (find_fixture_def fixture_name (getfile h (func fd)) argname
                 (map_of name2fixturedefs) (getfile h))
              (getcwd h @ [sep]) (getfile h))
         (argnames fd)"

section \<open>Properties of the search order\<close>

lemma gso_base: "dirname p = p \<Longrightarrow> get_fixture_search_order p = []"
  by (subst get_fixture_search_order.simps) simp

lemma gso_step: "dirname p \<noteq> p \<Longrightarrow>
  get_fixture_search_order p = path_join (dirname p) ''conftest.py'' # get_fixture_search_order (dirname p)"
  by (subst get_fixture_search_order.simps) (simp add: Let_def)

lemma gso_length: "length (get_fixture_search_order p) \<le> length p"
proof (induction p rule: get_fixture_search_order.induct)
  case (1 p)
  show ?case
  proof (cases "dirname p = p")
    case True
    then show ?thesis by (simp add: gso_base)
  next
    case False
    then have "length (get_fixture_search_order (dirname p)) \<le> length (dirname p)"
      using "1" by simp
    moreover have "length (dirname p) < length p" using False by (rule dirname_shorter)
    ultimately show ?thesis using False by (simp add: gso_step)
  qed
qed

lemma gso_nth: "i < length (get_fixture_search_order p) \<Longrightarrow>
   get_fixture_search_order p ! i = path_join ((dirname ^^ Suc i) p) ''conftest.py''
   \<and> (dirname ^^ Suc i) p \<noteq> (dirname ^^ i) p"
proof (induction p arbitrary: i rule: get_fixture_search_order.induct)
  case (1 p)
  show ?case
  proof (cases "dirname p = p")
    case True
    then show ?thesis using "1.prems" by (simp add: gso_base)
  next
    case False
    note step = gso_step [OF False]
    show ?thesis
    proof (cases i)
      case 0
      then show ?thesis using False by (simp add: step)
    next
      case (Suc j)
      then have "j < length (get_fixture_search_order (dirname p))"
        using "1.prems" by (simp add: step)
      then have "get_fixture_search_order (dirname p) ! j = path_join ((dirname ^^ Suc j) (dirname p)) ''conftest.py''
        \<and> (dirname ^^ Suc j) (dirname p) \<noteq> (dirname ^^ j) (dirname p)"
        using "1.IH" False by simp
      then show ?thesis using Suc by (simp add: step funpow_swap1)
    qed
  qed
qed

lemma gso_fix: "(dirname ^^ Suc (length (get_fixture_search_order p))) p
    = (dirname ^^ length (get_fixture_search_order p)) p"
proof (induction p rule: get_fixture_search_order.induct)
  case (1 p)
  show ?case
  proof (cases "dirname p = p")
    case True
    then show ?thesis by (simp add: gso_base)
  next
    case False
    then show ?thesis using "1" by (simp add: gso_step funpow_swap1)
  qed
qed

text \<open>
  Claim C8. The computation of the search order is total: it is defined by a terminating
  recursion on the parent directory, and it makes at most as many steps as the path has
  characters. It returns the empty list exactly when the parent of the path is the path
  itself, so the call on such a fixed point (the root) adds no entry. Otherwise it puts
  the \<^verbatim>\<open>conftest.py\<close> of the parent first and continues from the parent: entry
  \<open>i\<close> is the \<^verbatim>\<open>conftest.py\<close> of the \<open>(i+1)\<close>-th parent, each a proper step up,
  and the list ends at the first parent that is its own parent.
\<close>

theorem search_order_chain:
  "(get_fixture_search_order p = [] \<longleftrightarrow> dirname p = p)
   \<and> (dirname p \<noteq> p \<longrightarrow>
        get_fixture_search_order p
          = path_join (dirname p) ''conftest.py'' # get_fixture_search_order (dirname p))
   \<and> length (get_fixture_search_order p) \<le> length p
   \<and> (\<forall>i < length (get_fixture_search_order p).
         get_fixture_search_order p ! i = path_join ((dirname ^^ Suc i) p) ''conftest.py''
         \<and> (dirname ^^ Suc i) p \<noteq> (dirname ^^ i) p)
   \<and> (dirname ^^ Suc (length (get_fixture_search_order p))) p
         = (dirname ^^ length (get_fixture_search_order p)) p"
proof -
  have "get_fixture_search_order p = [] \<longleftrightarrow> dirname p = p"
    by (cases "dirname p = p") (simp_all add: gso_base gso_step)
  then show ?thesis
    using gso_step [of p] gso_length [of p] gso_nth [of _ p] gso_fix [of p] by blast
qed

text \<open>
  At \<^verbatim>\<open>/root/api\<close> the chain is the \<^verbatim>\<open>conftest.py\<close> of \<^verbatim>\<open>/root\<close>, then
  that of \<^verbatim>\<open>/\<close>; the call on \<^verbatim>\<open>/\<close> itself returns the empty list.
\<close>

theorem search_order_chain_witness:
  "dirname ''/root/api'' \<noteq> ''/root/api''
   \<and> get_fixture_search_order ''/root/api'' = [''/root/conftest.py'', ''/conftest.py'']
   \<and> (1::nat) < length (get_fixture_search_order ''/root/api'')
   \<and> get_fixture_search_order ''/root/api'' ! 1 = ''/conftest.py''
   \<and> (dirname ^^ 2) ''/root/api'' = ''/''
   \<and> dirname ''/'' = ''/''
   \<and> get_fixture_search_order ''/'' = []"
proof -
  have d1: "dirname ''/root/api'' = ''/root''"
    by (simp add: dirname_def head_of_path_def rstrip_sep_def sep_def)
  have d2: "dirname ''/root'' = ''/''"
    by (simp add: dirname_def head_of_path_def rstrip_sep_def sep_def)
  have d3: "dirname ''/'' = ''/''"
    by (simp add: dirname_def head_of_path_def rstrip_sep_def sep_def)
  have j1: "path_join ''/root'' ''conftest.py'' = ''/root/conftest.py''"
    by (simp add: path_join_def sep_def)
  have j2: "path_join ''/'' ''conftest.py'' = ''/conftest.py''"
    by (simp add: path_join_def sep_def)
  have two: "(2::nat) = Suc (Suc 0)" by simp
  show ?thesis
    using search_order_chain [of "''/root/api''"] search_order_chain [of "''/root''"]
      search_order_chain [of "''/''"]
    by (simp add: d1 d2 d3 j1 j2 two)
qed


section \<open>Properties of the selection\<close>

lemma list_index_None: "list_index xs x = None \<longleftrightarrow> x \<notin> set xs"
  by (induction xs) auto

lemma list_index_Some:
  "list_index xs x = Some i \<Longrightarrow> i < length xs \<and> xs ! i = x \<and> (\<forall>j<i. xs ! j \<noteq> x)"
proof (induction xs arbitrary: i)
  case Nil
  then show ?case by simp
next
  case (Cons y ys)
  show ?case
  proof (cases "y = x")
    case True
    then show ?thesis using Cons.prems by simp
  next
    case False
    then obtain k where k: "list_index ys x = Some k" "i = Suc k"
      using Cons.prems by auto
    then have ih: "k < length ys \<and> ys ! k = x \<and> (\<forall>j<k. ys ! j \<noteq> x)"
      using Cons.IH by blast
    have "\<forall>j<Suc k. (y # ys) ! j \<noteq> x"
    proof (intro allI impI)
      fix j assume "j < Suc k"
      then show "(y # ys) ! j \<noteq> x"
        using False ih by (cases j) auto
    qed
    then show ?thesis using ih k by simp
  qed
qed

lemma sort_key_fd_absent:
  "get_func_path (func c) \<notin> set search_order \<Longrightarrow> sort_key_fd search_order get_func_path c = sys_maxsize"
  by (simp add: sort_key_fd_def list_index_None [THEN iffD2])

lemma sort_key_fd_present:
  assumes "get_func_path (func c) \<in> set search_order"
  shows "sort_key_fd search_order get_func_path c < length search_order
       \<and> search_order ! sort_key_fd search_order get_func_path c = get_func_path (func c)
       \<and> (\<forall>j < sort_key_fd search_order get_func_path c. search_order ! j \<noteq> get_func_path (func c))"
proof -
  obtain i where i: "list_index search_order (get_func_path (func c)) = Some i"
    using assms list_index_None [of search_order "get_func_path (func c)"] by auto
  then have "sort_key_fd search_order get_func_path c = i"
    by (simp add: sort_key_fd_def)
  then show ?thesis using list_index_Some [OF i] by simp
qed

lemma find_filter_Cons: "filter P xs = x # r \<Longrightarrow> find P xs = Some x"
  by (induction xs) (auto split: if_splits)

lemma py_sorted_head:
  assumes "py_sorted key xs = x # rest"
  shows "x \<in> set xs \<and> (\<forall>y \<in> set xs. key x \<le> key y) \<and> find (\<lambda>y. key y = key x) xs = Some x"
proof -
  have s: "sort_key key xs = x # rest" using assms by (simp add: py_sorted_def)
  have "set (sort_key key xs) = set xs" by simp
  then have mem: "set xs = insert x (set rest)" using s by simp
  have "sorted (map key (sort_key key xs))" by (rule sorted_sort_key)
  then have le: "\<forall>y \<in> set rest. key x \<le> key y" using s by simp
  have "filter (\<lambda>y. key y = key x) xs = filter (\<lambda>y. key y = key x) (sort_key key xs)"
    by (simp add: sort_key_stable)
  then have f: "filter (\<lambda>y. key y = key x) xs = x # filter (\<lambda>y. key y = key x) rest"
    using s by simp
  have "find (\<lambda>y. key y = key x) xs = Some x"
    using f by (rule find_filter_Cons)
  then show ?thesis using mem le by auto
qed


lemma py_sorted_all_absent:
  assumes "\<forall>c \<in> set cs. get_func_path (func c) \<notin> set search_order"
  shows "py_sorted (sort_key_fd search_order get_func_path) cs = cs"
proof -
  have "map (sort_key_fd search_order get_func_path) cs = map (\<lambda>c. sys_maxsize) cs"
    using assms by (simp add: sort_key_fd_absent)
  then have "sorted (map (sort_key_fd search_order get_func_path) cs)"
    by (simp add: map_replicate_const)
  then show ?thesis
    unfolding py_sorted_def by (rule sort_key_id_if_sorted)
qed

lemma find_fixture_def_unfold:
  "find_fixture_def r L w reg get_func_path =
     (case reg w of
        None \<Rightarrow> None
      | Some ts \<Rightarrow>
          (case py_sorted (sort_key_fd (find_search_order r L w) get_func_path) ts of
             [] \<Rightarrow> None
           | d # _ \<Rightarrow> Some d))"
  by (simp add: find_fixture_def_def Let_def)

text \<open>
  Claim C2. For every candidate list and every search order, the candidates are put in
  ascending order of their rank, the index of the declaring location in the search order:
  the sorted list is a rearrangement of the candidates in which candidates of equal rank
  keep their relative order. A candidate whose location is absent from the search order
  has rank \<^verbatim>\<open>sys.maxsize\<close>; a search order is a Python list and so no longer than
  \<^verbatim>\<open>sys.maxsize\<close>, and then every other candidate has a smaller rank, its index.
  The resolution returns the first element of the sorted list, and nothing when there are
  no candidates. When every candidate is absent the list is left as it is, so the first
  candidate of the registry is returned.
\<close>

theorem resolve_stable_sort:
  "sorted (map (sort_key_fd so get_func_path) (py_sorted (sort_key_fd so get_func_path) cs))
   \<and> mset (py_sorted (sort_key_fd so get_func_path) cs) = mset cs
   \<and> (\<forall>k. filter (\<lambda>c. sort_key_fd so get_func_path c = k) (py_sorted (sort_key_fd so get_func_path) cs)
          = filter (\<lambda>c. sort_key_fd so get_func_path c = k) cs)
   \<and> (\<forall>c. get_func_path (func c) \<notin> set so \<longrightarrow> sort_key_fd so get_func_path c = sys_maxsize)
   \<and> (length so \<le> sys_maxsize \<longrightarrow>
         (\<forall>c. get_func_path (func c) \<in> set so \<longrightarrow>
               sort_key_fd so get_func_path c < sys_maxsize \<and> so ! sort_key_fd so get_func_path c = get_func_path (func c)))
   \<and> ((\<forall>c \<in> set cs. get_func_path (func c) \<notin> set so) \<longrightarrow> py_sorted (sort_key_fd so get_func_path) cs = cs)
   \<and> find_fixture_def r L w reg get_func_path =
         (case reg w of
            None \<Rightarrow> None
          | Some ts \<Rightarrow>
              (case py_sorted (sort_key_fd (find_search_order r L w) get_func_path) ts of
                 [] \<Rightarrow> None
               | d # _ \<Rightarrow> Some d))
   \<and> (reg w = Some cs \<and> cs \<noteq> [] \<and> (\<forall>c \<in> set cs. get_func_path (func c) \<notin> set (find_search_order r L w))
         \<longrightarrow> find_fixture_def r L w reg get_func_path = Some (hd cs))"
proof -
  have a: "sorted (map (sort_key_fd so get_func_path) (py_sorted (sort_key_fd so get_func_path) cs))"
    by (simp add: py_sorted_def)
  have b: "mset (py_sorted (sort_key_fd so get_func_path) cs) = mset cs"
    by (simp add: py_sorted_def)
  have c: "\<forall>k. filter (\<lambda>c. sort_key_fd so get_func_path c = k) (py_sorted (sort_key_fd so get_func_path) cs)
          = filter (\<lambda>c. sort_key_fd so get_func_path c = k) cs"
    by (simp add: py_sorted_def sort_key_stable)
  have d: "\<forall>c. get_func_path (func c) \<notin> set so \<longrightarrow> sort_key_fd so get_func_path c = sys_maxsize"
    by (simp add: sort_key_fd_absent)
  have e: "length so \<le> sys_maxsize \<longrightarrow>
         (\<forall>c. get_func_path (func c) \<in> set so \<longrightarrow>
               sort_key_fd so get_func_path c < sys_maxsize \<and> so ! sort_key_fd so get_func_path c = get_func_path (func c))"
    using sort_key_fd_present [of get_func_path _ so] by fastforce
  have f: "(\<forall>c \<in> set cs. get_func_path (func c) \<notin> set so) \<longrightarrow> py_sorted (sort_key_fd so get_func_path) cs = cs"
    by (simp add: py_sorted_all_absent)
  have g: "reg w = Some cs \<and> cs \<noteq> [] \<and> (\<forall>c \<in> set cs. get_func_path (func c) \<notin> set (find_search_order r L w))
         \<longrightarrow> find_fixture_def r L w reg get_func_path = Some (hd cs)"
  proof (intro impI, elim conjE)
    assume h: "reg w = Some cs" "cs \<noteq> []"
      "\<forall>c \<in> set cs. get_func_path (func c) \<notin> set (find_search_order r L w)"
    then have "py_sorted (sort_key_fd (find_search_order r L w) get_func_path) cs = cs"
      by (simp add: py_sorted_all_absent)
    then show "find_fixture_def r L w reg get_func_path = Some (hd cs)"
      using h by (cases cs) (simp_all add: find_fixture_def_unfold)
  qed
  show ?thesis
    using a b c d e f g find_fixture_def_unfold [of r L w reg get_func_path] by blast
qed


text \<open>
  Two candidates outside the search order and one at \<^verbatim>\<open>/root/conftest.py\<close>: the one
  inside comes first and the other two keep their order. With only the two outside
  candidates registered, the first of them is returned.
\<close>

theorem resolve_stable_sort_witness:
  "length [''/root/api/conftest.py'', ''/root/conftest.py''] \<le> sys_maxsize
   \<and> ''/root/conftest.py'' \<in> set [''/root/api/conftest.py'', ''/root/conftest.py'']
   \<and> sort_key_fd [''/root/api/conftest.py'', ''/root/conftest.py'']
         (\<lambda>f. [''/x/a.py'', ''/x/b.py'', ''/root/conftest.py''] ! func_ident f)
         \<lparr>baseid = [], func = PyFunc ''conftest'' 2, argnames = []\<rparr> < sys_maxsize
   \<and> py_sorted (sort_key_fd [''/root/api/conftest.py'', ''/root/conftest.py'']
         (\<lambda>f. [''/x/a.py'', ''/x/b.py'', ''/root/conftest.py''] ! func_ident f))
        [\<lparr>baseid = [], func = PyFunc ''a'' 0, argnames = []\<rparr>,
         \<lparr>baseid = [], func = PyFunc ''b'' 1, argnames = []\<rparr>,
         \<lparr>baseid = [], func = PyFunc ''conftest'' 2, argnames = []\<rparr>]
       = [\<lparr>baseid = [], func = PyFunc ''conftest'' 2, argnames = []\<rparr>,
          \<lparr>baseid = [], func = PyFunc ''a'' 0, argnames = []\<rparr>,
          \<lparr>baseid = [], func = PyFunc ''b'' 1, argnames = []\<rparr>]
   \<and> find_search_order ''db'' ''/root/api/conftest.py'' ''db''
       = [''/root/conftest.py'', ''/conftest.py'']
   \<and> find_fixture_def ''db'' ''/root/api/conftest.py'' ''db''
         [''db'' \<mapsto> [\<lparr>baseid = [], func = PyFunc ''a'' 0, argnames = []\<rparr>,
                     \<lparr>baseid = [], func = PyFunc ''b'' 1, argnames = []\<rparr>]]
         (\<lambda>f. [''/x/a.py'', ''/x/b.py'', ''/root/conftest.py''] ! func_ident f)
       = Some \<lparr>baseid = [], func = PyFunc ''a'' 0, argnames = []\<rparr>"
  (is "?len \<and> ?mem \<and> ?lt \<and> ?sorted \<and> ?order \<and> ?found")
proof -
  have len: ?len by (simp add: sys_maxsize_def)
  have mem: ?mem by simp
  have sorted: ?sorted by (simp add: py_sorted_def sort_key_fd_def sys_maxsize_def)
  have order: ?order by code_simp
  have absent:
    "\<forall>c \<in> set [\<lparr>baseid = [], func = PyFunc ''a'' 0, argnames = []\<rparr>,
                 \<lparr>baseid = [], func = PyFunc ''b'' 1, argnames = []\<rparr>].
       (\<lambda>f. [''/x/a.py'', ''/x/b.py'', ''/root/conftest.py''] ! func_ident f) (func c)
         \<notin> set (find_search_order ''db'' ''/root/api/conftest.py'' ''db'')"
    by (simp add: order)
  note inst = resolve_stable_sort
    [where so = "[''/root/api/conftest.py'', ''/root/conftest.py'']"
       and get_func_path = "\<lambda>f. [''/x/a.py'', ''/x/b.py'', ''/root/conftest.py''] ! func_ident f"
       and cs = "[\<lparr>baseid = [], func = PyFunc ''a'' 0, argnames = []\<rparr>,
                \<lparr>baseid = [], func = PyFunc ''b'' 1, argnames = []\<rparr>]"
       and reg = "[''db'' \<mapsto> [\<lparr>baseid = [], func = PyFunc ''a'' 0, argnames = []\<rparr>,
                     \<lparr>baseid = [], func = PyFunc ''b'' 1, argnames = []\<rparr>]]"
       and r = "''db''" and w = "''db''" and L = "''/root/api/conftest.py''"]
  note present = inst [THEN conjunct2, THEN conjunct2, THEN conjunct2, THEN conjunct2,
    THEN conjunct1, rule_format, OF len]
  note first = inst [THEN conjunct2, THEN conjunct2, THEN conjunct2, THEN conjunct2,
    THEN conjunct2, THEN conjunct2, THEN conjunct2]
  have found: ?found
    using first absent by simp
  have lt: ?lt
    using present [where c = "\<lparr>baseid = [], func = PyFunc ''conftest'' 2, argnames = []\<rparr>"]
    by simp
  show ?thesis using len mem lt sorted order found by blast
qed


subsection \<open>The consumer's own location is not among its ancestors\<close>

lemma replicate_sep_iff: "d = replicate (length d) sep \<longleftrightarrow> (\<forall>x \<in> set d. x = sep)"
  by (metis in_set_replicate replicate_length_same)

lemma dirname_shape:
  "dirname q = [] \<or> (dirname q \<noteq> [] \<and> (\<forall>x \<in> set (dirname q). x = sep))
     \<or> (dirname q \<noteq> [] \<and> last (dirname q) \<noteq> sep)"
proof (cases "head_of_path q \<noteq> [] \<and> head_of_path q \<noteq> replicate (length (head_of_path q)) sep")
  case True
  then have d: "dirname q = rev (dropWhile (\<lambda>c. c = sep) (rev (head_of_path q)))"
    by (simp add: dirname_def rstrip_sep_def)
  from True obtain x where "x \<in> set (head_of_path q)" "x \<noteq> sep"
    using replicate_sep_iff by blast
  then have ne: "dropWhile (\<lambda>c. c = sep) (rev (head_of_path q)) \<noteq> []"
    by (auto simp: dropWhile_eq_Nil_conv)
  then have "hd (dropWhile (\<lambda>c. c = sep) (rev (head_of_path q))) \<noteq> sep"
    using hd_dropWhile by blast
  then have "last (dirname q) \<noteq> sep"
    using d ne by (simp add: last_rev)
  then show ?thesis using d ne by simp
next
  case False
  then have "dirname q = head_of_path q"
    by (auto simp: dirname_def Let_def)
  then show ?thesis using False replicate_sep_iff by auto
qed

lemma path_join_dirname:
  assumes c: "c \<noteq> []" "sep \<notin> set c"
    and shape: "d = [] \<or> (d \<noteq> [] \<and> (\<forall>x \<in> set d. x = sep)) \<or> (d \<noteq> [] \<and> last d \<noteq> sep)"
  shows "dirname (path_join d c) = d"
proof -
  have hdc: "take 1 c \<noteq> [sep]"
    using c by (cases c) auto
  have dropc: "\<And>ys. dropWhile (\<lambda>x. x \<noteq> sep) (rev c @ ys) = dropWhile (\<lambda>x. x \<noteq> sep) ys"
    using c by (intro dropWhile_append2) auto
  consider (empty) "d = []" | (slashes) "d \<noteq> []" "\<forall>x \<in> set d. x = sep"
    | (plain) "d \<noteq> []" "last d \<noteq> sep"
    using shape by blast
  then show ?thesis
  proof cases
    case empty
    then have "path_join d c = c" using hdc by (simp add: path_join_def)
    moreover have "head_of_path c = []"
      using dropc [of "[]"] by (simp add: head_of_path_def)
    ultimately show ?thesis using empty by (simp add: dirname_def)
  next
    case slashes
    then have l: "last d = sep" by simp
    then have j: "path_join d c = d @ c" using hdc by (simp add: path_join_def)
    have "hd (rev d) = sep" using slashes l by (simp add: hd_rev)
    then have "dropWhile (\<lambda>x. x \<noteq> sep) (rev d) = rev d"
      using slashes by (cases "rev d") auto
    then have "head_of_path (d @ c) = d"
      using dropc [of "rev d"] by (simp add: head_of_path_def)
    moreover have "d = replicate (length d) sep"
      using slashes replicate_sep_iff by blast
    ultimately show ?thesis using j by (simp add: dirname_def Let_def)
  next
    case plain
    then have j: "path_join d c = d @ [sep] @ c" using hdc by (simp add: path_join_def)
    have h: "head_of_path (d @ [sep] @ c) = d @ [sep]"
      using dropc [of "sep # rev d"] by (simp add: head_of_path_def)
    have "hd (rev d) \<noteq> sep" using plain by (simp add: hd_rev)
    then have "dropWhile (\<lambda>x. x = sep) (rev d) = rev d"
      using plain by (cases "rev d") auto
    then have r: "rstrip_sep (d @ [sep]) = d"
      by (simp add: rstrip_sep_def)
    have "last d \<in> set (d @ [sep])" using plain by simp
    then have "d @ [sep] \<noteq> replicate (length (d @ [sep])) sep"
      using plain replicate_sep_iff [of "d @ [sep]"] by blast
    then show ?thesis using j h r by (simp add: dirname_def Let_def)
  qed
qed

lemma dirname_conftest: "dirname (path_join (dirname q) ''conftest.py'') = dirname q"
  by (rule path_join_dirname) (simp_all add: sep_def dirname_shape [unfolded sep_def])

lemma gso_elem_shorter:
  "e \<in> set (get_fixture_search_order p) \<Longrightarrow> length (dirname e) < length p"
proof (induction p rule: get_fixture_search_order.induct)
  case (1 p)
  show ?case
  proof (cases "dirname p = p")
    case True
    then show ?thesis using "1.prems" by (simp add: gso_base)
  next
    case False
    have lt: "length (dirname p) < length p" using False by (rule dirname_shorter)
    from "1.prems" False have "e = path_join (dirname p) ''conftest.py''
        \<or> e \<in> set (get_fixture_search_order (dirname p))"
      by (simp add: gso_step)
    then show ?thesis
    proof
      assume "e = path_join (dirname p) ''conftest.py''"
      then show ?thesis using lt by (simp add: dirname_conftest)
    next
      assume "e \<in> set (get_fixture_search_order (dirname p))"
      then have "length (dirname e) < length (dirname p)"
        using "1.IH" False by simp
      then show ?thesis using lt by simp
    qed
  qed
qed

lemma own_location_not_ancestor: "L \<notin> set (get_fixture_search_order (dirname L))"
  using gso_elem_shorter [of L "dirname L"] by auto


subsection \<open>The nearest candidate wins\<close>

lemma find_search_order_eq:
  "find_search_order r L w = (if r \<noteq> w then [L] else []) @ get_fixture_search_order (dirname L)"
  by (simp add: find_search_order_def Let_def)

lemma find_cong_set: "(\<And>x. x \<in> set xs \<Longrightarrow> P x = Q x) \<Longrightarrow> find P xs = find Q xs"
  by (induction xs) auto

lemma resolve_nearest:
  assumes len: "length so \<le> sys_maxsize"
    and i: "i < length so"
    and c0: "c0 \<in> set cs" "get_func_path (func c0) = so ! i"
    and nearer: "\<forall>j<i. \<forall>c \<in> set cs. get_func_path (func c) \<noteq> so ! j"
  shows "\<exists>d rest. py_sorted (sort_key_fd so get_func_path) cs = d # rest \<and> d \<in> set cs
           \<and> get_func_path (func d) = so ! i
           \<and> find (\<lambda>c. get_func_path (func c) = so ! i) cs = Some d"
proof -
  let ?key = "sort_key_fd so get_func_path"
  have key_at: "?key c = i" if "c \<in> set cs" "get_func_path (func c) = so ! i" for c
  proof -
    have "get_func_path (func c) \<in> set so" using that i by simp
    from sort_key_fd_present [where get_func_path = get_func_path and c = c and search_order = so, OF this]
    have k: "?key c < length so" "so ! ?key c = get_func_path (func c)"
      "\<forall>j < ?key c. so ! j \<noteq> get_func_path (func c)" by auto
    have "\<not> i < ?key c" using k(3) that by auto
    moreover have "\<not> ?key c < i" using nearer that(1) k(2) by metis
    ultimately show ?thesis by simp
  qed
  have lower: "i \<le> ?key c" if "c \<in> set cs" for c
  proof (cases "get_func_path (func c) \<in> set so")
    case True
    from sort_key_fd_present [where get_func_path = get_func_path and c = c and search_order = so, OF this]
    have "so ! ?key c = get_func_path (func c)" by simp
    then have "\<not> ?key c < i" using nearer that by metis
    then show ?thesis by simp
  next
    case False
    then have "?key c = sys_maxsize" by (rule sort_key_fd_absent)
    then show ?thesis using i len by simp
  qed
  have at_key: "get_func_path (func c) = so ! i" if "c \<in> set cs" "?key c = i" for c
  proof -
    have "get_func_path (func c) \<in> set so"
    proof (rule ccontr)
      assume "get_func_path (func c) \<notin> set so"
      then have "?key c = sys_maxsize" by (rule sort_key_fd_absent)
      then show False using that i len by simp
    qed
    from sort_key_fd_present [where get_func_path = get_func_path and c = c and search_order = so, OF this]
      that show ?thesis by simp
  qed
  have "length (py_sorted ?key cs) = length cs" by (simp add: py_sorted_def)
  then have "py_sorted ?key cs \<noteq> []" using c0 by auto
  then obtain d rest where s: "py_sorted ?key cs = d # rest"
    by (cases "py_sorted ?key cs") auto
  from py_sorted_head [OF s]
  have d: "d \<in> set cs" "\<forall>y \<in> set cs. ?key d \<le> ?key y" "find (\<lambda>y. ?key y = ?key d) cs = Some d"
    by auto
  have "?key d \<le> i" using d(2) c0 key_at by metis
  then have kd: "?key d = i" using lower [OF d(1)] by simp
  have loc: "get_func_path (func d) = so ! i" using at_key d(1) kd by blast
  have "find (\<lambda>c. get_func_path (func c) = so ! i) cs = find (\<lambda>y. ?key y = ?key d) cs"
    using key_at at_key kd by (intro find_cong_set) auto
  then show ?thesis using s d(1) d(3) loc by auto
qed

text \<open>
  Claim C1. The search order of a resolution is the chain of ancestor
  \<^verbatim>\<open>conftest.py\<close> files of the directory of the consumer's location \<open>L\<close>, with \<open>L\<close>
  itself put in front exactly when the requesting name differs from the wanted name.
  \<open>L\<close> never occurs in that chain, so for equal names \<open>L\<close> is not searched. Whenever
  some candidate is declared at position \<open>i\<close> of the search order and none at a position
  before it, the resolution returns a candidate declared there, the first such of the
  registry: with different names the consumer's own location is position 0 and the
  ancestors follow, nearest first; with equal names the nearest ancestor's candidate is
  returned, which is not declared at \<open>L\<close>. The resolution is a total function. The
  search order is a Python list, no longer than \<^verbatim>\<open>sys.maxsize\<close>.
\<close>

theorem resolve_override_precedence:
  "find_search_order r L w = (if r \<noteq> w then [L] else []) @ get_fixture_search_order (dirname L)
   \<and> L \<notin> set (get_fixture_search_order (dirname L))
   \<and> (r = w \<longrightarrow> L \<notin> set (find_search_order r L w))
   \<and> (r \<noteq> w \<longrightarrow> find_search_order r L w ! 0 = L)
   \<and> (\<forall>cs i. reg w = Some cs \<and> length (find_search_order r L w) \<le> sys_maxsize
          \<and> i < length (find_search_order r L w)
          \<and> (\<exists>c \<in> set cs. get_func_path (func c) = find_search_order r L w ! i)
          \<and> (\<forall>j<i. \<forall>c \<in> set cs. get_func_path (func c) \<noteq> find_search_order r L w ! j)
        \<longrightarrow> (\<exists>d. find_fixture_def r L w reg get_func_path = Some d \<and> d \<in> set cs
               \<and> get_func_path (func d) = find_search_order r L w ! i
               \<and> find (\<lambda>c. get_func_path (func c) = find_search_order r L w ! i) cs = Some d
               \<and> (r = w \<longrightarrow> get_func_path (func d) \<noteq> L)))"
proof -
  let ?so = "find_search_order r L w"
  have a: "?so = (if r \<noteq> w then [L] else []) @ get_fixture_search_order (dirname L)"
    by (rule find_search_order_eq)
  have b: "L \<notin> set (get_fixture_search_order (dirname L))"
    by (rule own_location_not_ancestor)
  have c: "r = w \<longrightarrow> L \<notin> set ?so"
  proof
    assume "r = w"
    then have "?so = get_fixture_search_order (dirname L)" using a by simp
    then show "L \<notin> set ?so" using b by simp
  qed
  have d: "r \<noteq> w \<longrightarrow> ?so ! 0 = L"
    using a by simp
  have e: "\<exists>d. find_fixture_def r L w reg get_func_path = Some d \<and> d \<in> set cs
               \<and> get_func_path (func d) = ?so ! i
               \<and> find (\<lambda>c. get_func_path (func c) = ?so ! i) cs = Some d
               \<and> (r = w \<longrightarrow> get_func_path (func d) \<noteq> L)"
    if h: "reg w = Some cs" "length ?so \<le> sys_maxsize" "i < length ?so"
      "\<exists>c \<in> set cs. get_func_path (func c) = ?so ! i"
      "\<forall>j<i. \<forall>c \<in> set cs. get_func_path (func c) \<noteq> ?so ! j" for cs i
  proof -
    from h(4) obtain c0 where c0: "c0 \<in> set cs" "get_func_path (func c0) = ?so ! i" by blast
    from resolve_nearest [where so = "?so" and get_func_path = get_func_path and cs = cs
        and i = i and ?c0.0 = c0, OF h(2) h(3) c0 h(5)]
    obtain d rest where dr: "py_sorted (sort_key_fd ?so get_func_path) cs = d # rest" "d \<in> set cs"
      "get_func_path (func d) = ?so ! i"
      "find (\<lambda>c. get_func_path (func c) = ?so ! i) cs = Some d"
      by blast
    have f: "find_fixture_def r L w reg get_func_path = Some d"
      using h(1) dr(1) by (simp add: find_fixture_def_unfold)
    have "get_func_path (func d) \<in> set ?so" using dr(3) h(3) by simp
    then have "r = w \<longrightarrow> get_func_path (func d) \<noteq> L" using c by auto
    then show ?thesis using f dr by blast
  qed
  show ?thesis
    using a b c d e by blast
qed


text \<open>
  Three definitions of \<^verbatim>\<open>db\<close>: \<open>A\<close> in \<^verbatim>\<open>/p/conftest.py\<close>, \<open>B\<close> in
  \<^verbatim>\<open>/p/a/conftest.py\<close> and \<open>C\<close> in \<^verbatim>\<open>/p/a/b/conftest.py\<close>, the location of the
  consumer. Requested by \<^verbatim>\<open>client\<close>, the resolution returns \<open>C\<close>, then \<open>B\<close> when
  \<open>C\<close> is not registered, then \<open>A\<close> when \<open>B\<close> is not either. Requested by the
  definition of \<^verbatim>\<open>db\<close> at the consumer's location itself, it returns \<open>B\<close>.
\<close>

theorem resolve_override_precedence_witness:
  "find_fixture_def ''client'' ''/p/a/b/conftest.py'' ''db''
     [''db'' \<mapsto> [\<lparr>baseid = [], func = PyFunc ''conftest'' 0, argnames = []\<rparr>,
                 \<lparr>baseid = ''a'', func = PyFunc ''a.conftest'' 1, argnames = []\<rparr>,
                 \<lparr>baseid = ''a/b'', func = PyFunc ''a.b.conftest'' 2, argnames = []\<rparr>]]
     (\<lambda>f. [''/p/conftest.py'', ''/p/a/conftest.py'', ''/p/a/b/conftest.py''] ! func_ident f)
     = Some \<lparr>baseid = ''a/b'', func = PyFunc ''a.b.conftest'' 2, argnames = []\<rparr>
   \<and> find_fixture_def ''client'' ''/p/a/b/conftest.py'' ''db''
     [''db'' \<mapsto> [\<lparr>baseid = [], func = PyFunc ''conftest'' 0, argnames = []\<rparr>,
                 \<lparr>baseid = ''a'', func = PyFunc ''a.conftest'' 1, argnames = []\<rparr>]]
     (\<lambda>f. [''/p/conftest.py'', ''/p/a/conftest.py'', ''/p/a/b/conftest.py''] ! func_ident f)
     = Some \<lparr>baseid = ''a'', func = PyFunc ''a.conftest'' 1, argnames = []\<rparr>
   \<and> find_fixture_def ''client'' ''/p/a/b/conftest.py'' ''db''
     [''db'' \<mapsto> [\<lparr>baseid = [], func = PyFunc ''conftest'' 0, argnames = []\<rparr>]]
     (\<lambda>f. [''/p/conftest.py'', ''/p/a/conftest.py'', ''/p/a/b/conftest.py''] ! func_ident f)
     = Some \<lparr>baseid = [], func = PyFunc ''conftest'' 0, argnames = []\<rparr>
   \<and> find_fixture_def ''db'' ''/p/a/b/conftest.py'' ''db''
     [''db'' \<mapsto> [\<lparr>baseid = ''a/b'', func = PyFunc ''a.b.conftest'' 2, argnames = []\<rparr>,
                 \<lparr>baseid = ''a'', func = PyFunc ''a.conftest'' 1, argnames = []\<rparr>]]
     (\<lambda>f. [''/p/conftest.py'', ''/p/a/conftest.py'', ''/p/a/b/conftest.py''] ! func_ident f)
     = Some \<lparr>baseid = ''a'', func = PyFunc ''a.conftest'' 1, argnames = []\<rparr>
   \<and> find_search_order ''client'' ''/p/a/b/conftest.py'' ''db''
     = [''/p/a/b/conftest.py'', ''/p/a/conftest.py'', ''/p/conftest.py'', ''/conftest.py'']
   \<and> find_search_order ''db'' ''/p/a/b/conftest.py'' ''db''
     = [''/p/a/conftest.py'', ''/p/conftest.py'', ''/conftest.py'']"
  (is "?c \<and> ?b \<and> ?a \<and> ?own \<and> ?so1 \<and> ?so2")
proof -
  let ?A = "\<lparr>baseid = [], func = PyFunc ''conftest'' 0, argnames = []\<rparr>"
  let ?B = "\<lparr>baseid = ''a'', func = PyFunc ''a.conftest'' 1, argnames = []\<rparr>"
  let ?C = "\<lparr>baseid = ''a/b'', func = PyFunc ''a.b.conftest'' 2, argnames = []\<rparr>"
  let ?g = "\<lambda>f. [''/p/conftest.py'', ''/p/a/conftest.py'', ''/p/a/b/conftest.py''] ! func_ident f"
  let ?L = "''/p/a/b/conftest.py''"
  let ?S1 = "find_search_order ''client'' ?L ''db''"
  let ?S2 = "find_search_order ''db'' ?L ''db''"
  have so1: ?so1 by code_simp
  have so2: ?so2 by code_simp
  note near1 = resolve_override_precedence
    [where r = "''client''" and w = "''db''" and L = ?L and get_func_path = ?g,
      THEN conjunct2, THEN conjunct2, THEN conjunct2, THEN conjunct2, rule_format]
  note near2 = resolve_override_precedence
    [where r = "''db''" and w = "''db''" and L = ?L and get_func_path = ?g,
      THEN conjunct2, THEN conjunct2, THEN conjunct2, THEN conjunct2, rule_format]
  have c: ?c
  proof -
    have hyp: "[''db'' \<mapsto> [?A, ?B, ?C]] ''db'' = Some [?A, ?B, ?C]
        \<and> length ?S1 \<le> sys_maxsize \<and> 0 < length ?S1
        \<and> (\<exists>c \<in> set [?A, ?B, ?C]. ?g (func c) = ?S1 ! 0)
        \<and> (\<forall>j<0. \<forall>c \<in> set [?A, ?B, ?C]. ?g (func c) \<noteq> ?S1 ! j)"
      by (simp add: so1 sys_maxsize_def)
    from near1 [where reg = "[''db'' \<mapsto> [?A, ?B, ?C]]" and cs = "[?A, ?B, ?C]" and i = 0, OF hyp]
    obtain d where d: "find_fixture_def ''client'' ?L ''db'' [''db'' \<mapsto> [?A, ?B, ?C]] ?g = Some d"
      "find (\<lambda>c. ?g (func c) = ?S1 ! 0) [?A, ?B, ?C] = Some d"
      by blast
    from d(2) have "d = ?C" by (simp add: so1)
    then show ?thesis using d(1) by simp
  qed
  have b: ?b
  proof -
    have hyp: "[''db'' \<mapsto> [?A, ?B]] ''db'' = Some [?A, ?B]
        \<and> length ?S1 \<le> sys_maxsize \<and> 1 < length ?S1
        \<and> (\<exists>c \<in> set [?A, ?B]. ?g (func c) = ?S1 ! 1)
        \<and> (\<forall>j<1. \<forall>c \<in> set [?A, ?B]. ?g (func c) \<noteq> ?S1 ! j)"
      by (simp add: so1 sys_maxsize_def)
    from near1 [where reg = "[''db'' \<mapsto> [?A, ?B]]" and cs = "[?A, ?B]" and i = 1, OF hyp]
    obtain d where d: "find_fixture_def ''client'' ?L ''db'' [''db'' \<mapsto> [?A, ?B]] ?g = Some d"
      "find (\<lambda>c. ?g (func c) = ?S1 ! 1) [?A, ?B] = Some d"
      by blast
    from d(2) have "d = ?B" by (simp add: so1)
    then show ?thesis using d(1) by simp
  qed
  have a: ?a
  proof -
    have hyp: "[''db'' \<mapsto> [?A]] ''db'' = Some [?A]
        \<and> length ?S1 \<le> sys_maxsize \<and> 2 < length ?S1
        \<and> (\<exists>c \<in> set [?A]. ?g (func c) = ?S1 ! 2)
        \<and> (\<forall>j<2. \<forall>c \<in> set [?A]. ?g (func c) \<noteq> ?S1 ! j)"
      by (simp add: so1 sys_maxsize_def less_Suc_eq numeral_2_eq_2)
    from near1 [where reg = "[''db'' \<mapsto> [?A]]" and cs = "[?A]" and i = 2, OF hyp]
    obtain d where d: "find_fixture_def ''client'' ?L ''db'' [''db'' \<mapsto> [?A]] ?g = Some d"
      "find (\<lambda>c. ?g (func c) = ?S1 ! 2) [?A] = Some d"
      by blast
    from d(2) have "d = ?A" by (simp add: so1)
    then show ?thesis using d(1) by simp
  qed
  have own: ?own
  proof -
    have hyp: "[''db'' \<mapsto> [?C, ?B]] ''db'' = Some [?C, ?B]
        \<and> length ?S2 \<le> sys_maxsize \<and> 0 < length ?S2
        \<and> (\<exists>c \<in> set [?C, ?B]. ?g (func c) = ?S2 ! 0)
        \<and> (\<forall>j<0. \<forall>c \<in> set [?C, ?B]. ?g (func c) \<noteq> ?S2 ! j)"
      by (simp add: so2 sys_maxsize_def)
    from near2 [where reg = "[''db'' \<mapsto> [?C, ?B]]" and cs = "[?C, ?B]" and i = 0, OF hyp]
    obtain d where d: "find_fixture_def ''db'' ?L ''db'' [''db'' \<mapsto> [?C, ?B]] ?g = Some d"
      "find (\<lambda>c. ?g (func c) = ?S2 ! 0) [?C, ?B] = Some d"
      by blast
    from d(2) have "d = ?B" by (simp add: so2)
    then show ?thesis using d(1) by simp
  qed
  show ?thesis using a b c own so1 so2 by blast
qed


section \<open>Properties of the duplicate report\<close>

lemma print_rows_lines:
  "print_rows argname fs previous_argname =
     Inr ((if fs \<noteq> [] \<and> previous_argname \<noteq> Some argname
           then [TwLine [], TwSep ''-'' argname] else [])
          @ map (\<lambda>f. TwLine (bestrel f)) fs)"
proof (induction fs arbitrary: previous_argname)
  case Nil
  show ?case by simp
next
  case (Cons f fs)
  have "print_rows argname fs (Some argname) = Inr (map (\<lambda>f. TwLine (bestrel f)) fs)"
    by (simp add: Cons.IH)
  then show ?case
    by (simp add: verbose_def)
qed

lemma print_duplicates_lines:
  "print_duplicates argname fixtures previous_argname =
     Inr (if length fixtures > 1
          then (if previous_argname \<noteq> Some argname then [TwLine [], TwSep ''-'' argname] else [])
               @ map (\<lambda>f. TwLine (bestrel f)) (py_sorted bestrel fixtures)
          else [])"
proof (cases "length fixtures > 1")
  case True
  then have "length (py_sorted bestrel fixtures) > 1" by (simp add: py_sorted_def)
  then have "py_sorted bestrel fixtures \<noteq> []" by auto
  then show ?thesis using True by (simp add: print_duplicates_def print_rows_lines)
next
  case False
  then show ?thesis by (simp add: print_duplicates_def)
qed

text \<open>
  Claim C3, as the code has it. A group of more than one member is printed as its header
  (unless the name was the previous one) followed by one line per member, and the members
  are in ascending order of the location string alone: a rearrangement of the group that
  keeps members of equal location in their order. The length of \<open>baseid\<close>, the first
  component of the tuple, takes no part in the order.
\<close>

theorem print_duplicates_sorted_by_location:
  "length fixtures > 1 \<longrightarrow>
     print_duplicates argname fixtures previous_argname =
       Inr ((if previous_argname \<noteq> Some argname then [TwLine [], TwSep ''-'' argname] else [])
            @ map (\<lambda>f. TwLine (bestrel f)) (py_sorted bestrel fixtures))
     \<and> sorted (map bestrel (py_sorted bestrel fixtures))
     \<and> mset (py_sorted bestrel fixtures) = mset fixtures
     \<and> (\<forall>l. filter (\<lambda>f. bestrel f = l) (py_sorted bestrel fixtures)
            = filter (\<lambda>f. bestrel f = l) fixtures)"
  by (simp add: print_duplicates_lines py_sorted_def sort_key_stable)

text \<open>
  The definitions of \<^verbatim>\<open>db\<close> in \<^verbatim>\<open>conftest.py\<close> and in \<^verbatim>\<open>api/conftest.py\<close>:
  the report lists \<^verbatim>\<open>api/conftest.py:3\<close> first.
\<close>

theorem print_duplicates_sorted_by_location_witness:
  "length [(0::nat, ''conftest'', ''conftest.py:5'',
              \<lparr>baseid = [], func = PyFunc ''conftest'' 0, argnames = []\<rparr>),
           (3, ''api.conftest'', ''api/conftest.py:3'',
              \<lparr>baseid = ''api'', func = PyFunc ''api.conftest'' 1, argnames = []\<rparr>)] > 1
   \<and> print_duplicates ''db''
         [(0, ''conftest'', ''conftest.py:5'',
              \<lparr>baseid = [], func = PyFunc ''conftest'' 0, argnames = []\<rparr>),
          (3, ''api.conftest'', ''api/conftest.py:3'',
              \<lparr>baseid = ''api'', func = PyFunc ''api.conftest'' 1, argnames = []\<rparr>)] None
       = Inr [TwLine [], TwSep ''-'' ''db'', TwLine ''api/conftest.py:3'', TwLine ''conftest.py:5'']"
  (is "?len \<and> ?printed")
proof -
  let ?fs = "[(0::nat, ''conftest'', ''conftest.py:5'',
              \<lparr>baseid = [], func = PyFunc ''conftest'' 0, argnames = []\<rparr>),
           (3, ''api.conftest'', ''api/conftest.py:3'',
              \<lparr>baseid = ''api'', func = PyFunc ''api.conftest'' 1, argnames = []\<rparr>)]"
  have len: ?len by simp
  have s: "py_sorted bestrel ?fs = rev ?fs"
    by code_simp
  note p = print_duplicates_sorted_by_location [of ?fs "''db''" None, THEN mp, OF len, THEN conjunct1]
  have ?printed unfolding p s by (simp add: bestrel_def)
  then show ?thesis using len by blast
qed


text \<open>
  The claim as stated fails on this group: the member printed first is the deeper one.
  Its location has two ancestor scopes and a \<open>baseid\<close> of length 3, the other has one
  ancestor scope and an empty \<open>baseid\<close>.
\<close>

theorem print_duplicates_depth_order_counterexample:
  "print_duplicates ''db''
         [(0, ''conftest'', ''conftest.py:5'',
              \<lparr>baseid = [], func = PyFunc ''conftest'' 0, argnames = []\<rparr>),
          (3, ''api.conftest'', ''api/conftest.py:3'',
              \<lparr>baseid = ''api'', func = PyFunc ''api.conftest'' 1, argnames = []\<rparr>)] None
       = Inr [TwLine [], TwSep ''-'' ''db'', TwLine ''api/conftest.py:3'', TwLine ''conftest.py:5'']
   \<and> length (get_fixture_search_order ''api/conftest.py:3'') = 2
   \<and> length (get_fixture_search_order ''conftest.py:5'') = 1
   \<and> \<not> (length (get_fixture_search_order ''api/conftest.py:3''), ''api/conftest.py:3'')
         \<le> (length (get_fixture_search_order ''conftest.py:5''), ''conftest.py:5'')"
  (is "?printed \<and> ?deep \<and> ?shallow \<and> ?order")
proof -
  let ?fs = "[(0::nat, ''conftest'', ''conftest.py:5'',
              \<lparr>baseid = [], func = PyFunc ''conftest'' 0, argnames = []\<rparr>),
           (3, ''api.conftest'', ''api/conftest.py:3'',
              \<lparr>baseid = ''api'', func = PyFunc ''api.conftest'' 1, argnames = []\<rparr>)]"
  have s: "py_sorted bestrel ?fs = rev ?fs"
    by code_simp
  have printed: ?printed
    unfolding print_duplicates_lines s by (simp add: bestrel_def)
  have deep: ?deep by code_simp
  have shallow: ?shallow by code_simp
  have order: ?order unfolding deep shallow by (simp add: less_eq_prod_def)
  show ?thesis using printed deep shallow order by blast
qed


section \<open>Properties of the collection\<close>

lemma avail_get_update:
  "avail_get (AList.update k v available) n = (if n = k then v else avail_get available n)"
  by (simp add: avail_get_def update_conv')

lemma avail_get_add_fixture:
  "avail_get (add_fixture h a d available) n =
     (if n = a then append_new (avail_get available a) (fixture_of h d) else avail_get available n)"
  by (simp add: add_fixture_def avail_get_update)

lemma avail_get_fold_add_fixture:
  "avail_get (fold (add_fixture h a) ds available) n =
     (if n = a
      then fold (\<lambda>f g. append_new g f) (map (fixture_of h) ds) (avail_get available a)
      else avail_get available n)"
  by (induction ds arbitrary: available) (simp_all add: avail_get_add_fixture)

lemma scan_item_group:
  "scan_item h fm nodeid names available = Inr available' \<Longrightarrow>
     avail_get available' n =
       fold (\<lambda>f g. append_new g f) (item_fixtures h fm nodeid names n) (avail_get available n)"
proof (induction names arbitrary: available)
  case Nil
  then show ?case by (simp add: item_fixtures_def)
next
  case (Cons a names)
  from Cons.prems obtain ds where ds: "getfixturedefs fm a nodeid = Some ds"
    and rest: "scan_item h fm nodeid names (fold (add_fixture h a) ds available) = Inr available'"
    by (auto split: option.splits)
  have split: "item_fixtures h fm nodeid (a # names) n =
      (if a = n then map (fixture_of h) ds else []) @ item_fixtures h fm nodeid names n"
    using ds by (auto simp: item_fixtures_def)
  show ?case
    using Cons.IH [OF rest] by (simp add: split avail_get_fold_add_fixture)
qed

lemma scan_items_group:
  "scan_items h fm nodeids names available = Inr available' \<Longrightarrow>
     avail_get available' n =
       fold (\<lambda>f g. append_new g f) (met_fixtures h fm nodeids names n) (avail_get available n)"
proof (induction nodeids arbitrary: available)
  case Nil
  then show ?case by (simp add: met_fixtures_def)
next
  case (Cons nodeid nodeids)
  from Cons.prems obtain mid where mid: "scan_item h fm nodeid names available = Inr mid"
    and rest: "scan_items h fm nodeids names mid = Inr available'"
    by (auto split: sum.splits)
  have split: "met_fixtures h fm (nodeid # nodeids) names n =
      item_fixtures h fm nodeid names n @ met_fixtures h fm nodeids names n"
    by (simp add: met_fixtures_def)
  show ?case
    using Cons.IH [OF rest] scan_item_group [OF mid, of n] by (simp add: split)
qed

lemma fold_append_new_locations:
  "set (map bestrel (fold (\<lambda>f g. append_new g f) fs g0)) = set (map bestrel g0) \<union> set (map bestrel fs)"
  by (induction fs arbitrary: g0) (auto simp: append_new_def)

lemma fold_append_new_distinct:
  "distinct (map bestrel g0) \<Longrightarrow> distinct (map bestrel (fold (\<lambda>f g. append_new g f) fs g0))"
  by (induction fs arbitrary: g0) (auto simp: append_new_def)

lemma fold_append_new_first:
  "f \<in> set (fold (\<lambda>f g. append_new g f) fs g0) \<Longrightarrow>
     f \<in> set g0 \<or> (bestrel f \<notin> set (map bestrel g0) \<and> find (\<lambda>g. bestrel g = bestrel f) fs = Some f)"
proof (induction fs arbitrary: g0)
  case Nil
  then show ?case by simp
next
  case (Cons x fs)
  from Cons.IH [OF Cons.prems [simplified]]
  have "f \<in> set (append_new g0 x)
      \<or> (bestrel f \<notin> set (map bestrel (append_new g0 x)) \<and> find (\<lambda>g. bestrel g = bestrel f) fs = Some f)"
    by simp
  then show ?case
    by (auto simp: append_new_def split: if_splits)
qed

lemma collect_available_group:
  assumes "collect_available h name s = Inr available"
  shows "avail_get available n =
     fold (\<lambda>f g. append_new g f)
       (met_fixtures h (fixturemanager s) (items s) (scanned_names name (fixturemanager s)) n) []"
  using scan_items_group [OF assms [unfolded collect_available_def], of n]
  by (simp add: avail_get_def)


text \<open>
  Claim C7. Whenever the collection completes, the group of every name is obtained from
  the fixtures met for the name, in scanning order, by appending a fixture exactly when
  no fixture collected before it has the same location string. So the members of a
  group have pairwise different locations, every location met for the name has a member,
  and the member of a location is the first fixture met with that location.
\<close>

theorem collect_dedupes_by_location:
  "collect_available h name s = Inr available \<longrightarrow>
     avail_get available n =
       fold (\<lambda>f g. append_new g f)
         (met_fixtures h (fixturemanager s) (items s) (scanned_names name (fixturemanager s)) n) []
     \<and> (\<forall>seen f. append_new seen f = (if bestrel f \<in> bestrel ` set seen then seen else seen @ [f]))
     \<and> distinct (map bestrel (avail_get available n))
     \<and> set (map bestrel (avail_get available n)) =
         set (map bestrel
           (met_fixtures h (fixturemanager s) (items s) (scanned_names name (fixturemanager s)) n))
     \<and> (\<forall>f \<in> set (avail_get available n).
           find (\<lambda>g. bestrel g = bestrel f)
             (met_fixtures h (fixturemanager s) (items s) (scanned_names name (fixturemanager s)) n)
           = Some f)"
proof
  let ?met = "met_fixtures h (fixturemanager s) (items s) (scanned_names name (fixturemanager s)) n"
  assume c: "collect_available h name s = Inr available"
  have g: "avail_get available n = fold (\<lambda>f g. append_new g f) ?met []"
    using c by (rule collect_available_group)
  have step: "\<forall>seen f. append_new seen f = (if bestrel f \<in> bestrel ` set seen then seen else seen @ [f])"
    by (simp add: append_new_def)
  have d: "distinct (map bestrel (avail_get available n))"
    unfolding g by (rule fold_append_new_distinct) simp
  have l: "set (map bestrel (avail_get available n)) = set (map bestrel ?met)"
    unfolding g by (simp add: fold_append_new_locations del: set_map)
  have f: "\<forall>f \<in> set (avail_get available n). find (\<lambda>g. bestrel g = bestrel f) ?met = Some f"
  proof
    fix f assume "f \<in> set (avail_get available n)"
    then have "f \<in> set (fold (\<lambda>f g. append_new g f) ?met [])" using g by simp
    from fold_append_new_first [OF this]
    show "find (\<lambda>g. bestrel g = bestrel f) ?met = Some f" by simp
  qed
  show "avail_get available n = fold (\<lambda>f g. append_new g f) ?met []
     \<and> (\<forall>seen f. append_new seen f = (if bestrel f \<in> bestrel ` set seen then seen else seen @ [f]))
     \<and> distinct (map bestrel (avail_get available n))
     \<and> set (map bestrel (avail_get available n)) = set (map bestrel ?met)
     \<and> (\<forall>f \<in> set (avail_get available n). find (\<lambda>g. bestrel g = bestrel f) ?met = Some f)"
    using g step d l f by blast
qed

text \<open>
  One item sees three definitions of \<^verbatim>\<open>db\<close>, the first two at the same location:
  the group keeps the first and the third.
\<close>

theorem collect_dedupes_by_location_witness:
  "collect_available
     \<lparr>getcwd = ''/p'', getfile = (\<lambda>f. []), relpath = (\<lambda>p start. p),
      getlocation = (\<lambda>f. [''conftest.py:5'', ''conftest.py:5'', ''api/conftest.py:3''] ! func_ident f),
      bestrelpath = (\<lambda>p. p), makedirs = (\<lambda>p. None), isdir = (\<lambda>p. True),
      dot_write = (\<lambda>p f. None)\<rparr>
     []
     \<lparr>items = [''api/test_x.py::test_a''],
      fixturemanager = \<lparr>arg2fixturedefs =
          [(''db'', [\<lparr>baseid = [], func = PyFunc ''conftest'' 0, argnames = []\<rparr>,
                    \<lparr>baseid = [], func = PyFunc ''conftest'' 1, argnames = []\<rparr>,
                    \<lparr>baseid = ''api'', func = PyFunc ''api.conftest'' 2, argnames = []\<rparr>])],
        getfixturedefs = (\<lambda>argname nodeid.
          Some [\<lparr>baseid = [], func = PyFunc ''conftest'' 0, argnames = []\<rparr>,
                \<lparr>baseid = [], func = PyFunc ''conftest'' 1, argnames = []\<rparr>,
                \<lparr>baseid = ''api'', func = PyFunc ''api.conftest'' 2, argnames = []\<rparr>])\<rparr>\<rparr>
   = Inr [(''db'',
           [(0, ''conftest'', ''conftest.py:5'',
               \<lparr>baseid = [], func = PyFunc ''conftest'' 0, argnames = []\<rparr>),
            (3, ''api.conftest'', ''api/conftest.py:3'',
               \<lparr>baseid = ''api'', func = PyFunc ''api.conftest'' 2, argnames = []\<rparr>)])]
   \<and> distinct (map bestrel (avail_get
         [(''db'',
           [(0, ''conftest'', ''conftest.py:5'',
               \<lparr>baseid = [], func = PyFunc ''conftest'' 0, argnames = []\<rparr>),
            (3, ''api.conftest'', ''api/conftest.py:3'',
               \<lparr>baseid = ''api'', func = PyFunc ''api.conftest'' 2, argnames = []\<rparr>)])] ''db''))"
  (is "?c \<and> ?d")
proof -
  have c: ?c by code_simp
  from collect_dedupes_by_location [where n = "''db''", THEN mp, OF c]
  have ?d by blast
  then show ?thesis using c by blast
qed


section \<open>The single-name filter\<close>








text \<open>
  Claim C4, as the code has it. With the filter set to a registered name, that name alone
  is scanned, and its group is reported by the same \<^verbatim>\<open>print_duplicates\<close> as in the
  unfiltered mode, with the same test on the size: a group of more than one member is
  printed, header first and members in the order of their locations; a group of at most
  one member prints nothing.
\<close>

theorem filter_mode_keeps_gate:
  "option_fixture_name option \<noteq> []
   \<and> option_fixture_name option \<in> set (map fst (arg2fixturedefs (fixturemanager s)))
   \<and> collect_available h (option_fixture_name option) s = Inr available
   \<longrightarrow>
     scanned_names (option_fixture_name option) (fixturemanager s) = [option_fixture_name option]
     \<and> show_fixture_duplicates_main h option s =
         print_duplicates (option_fixture_name option)
           (avail_get available (option_fixture_name option)) None
     \<and> (length (avail_get available (option_fixture_name option)) \<le> 1 \<longrightarrow>
           show_fixture_duplicates_main h option s = Inr [])
     \<and> (length (avail_get available (option_fixture_name option)) > 1 \<longrightarrow>
           show_fixture_duplicates_main h option s =
             Inr ([TwLine [], TwSep ''-'' (option_fixture_name option)]
                  @ map (\<lambda>f. TwLine (bestrel f))
                      (py_sorted bestrel (avail_get available (option_fixture_name option)))))"
  by (auto simp: scanned_names_def show_fixture_duplicates_main_def print_duplicates_lines)


text \<open>
  With the filter \<^verbatim>\<open>db\<close> and two definitions of \<^verbatim>\<open>db\<close> at different locations, the
  group has two members and is printed.
\<close>

theorem filter_mode_keeps_gate_witness:
  "show_fixture_duplicates_main
     \<lparr>getcwd = ''/p'', getfile = (\<lambda>f. []), relpath = (\<lambda>p start. p),
      getlocation = (\<lambda>f. [''conftest.py:5'', ''api/conftest.py:3''] ! func_ident f),
      bestrelpath = (\<lambda>p. p), makedirs = (\<lambda>p. None), isdir = (\<lambda>p. True),
      dot_write = (\<lambda>p f. None)\<rparr>
     \<lparr>option_fixture_name = ''db'', fixture_graph_output_dir = ''artifacts'',
      fixture_graph_output_type = ''png''\<rparr>
     \<lparr>items = [''api/test_x.py::test_a''],
      fixturemanager = \<lparr>arg2fixturedefs =
          [(''db'', [\<lparr>baseid = [], func = PyFunc ''conftest'' 0, argnames = []\<rparr>,
                    \<lparr>baseid = ''api'', func = PyFunc ''api.conftest'' 1, argnames = []\<rparr>])],
        getfixturedefs = (\<lambda>argname nodeid.
          Some [\<lparr>baseid = [], func = PyFunc ''conftest'' 0, argnames = []\<rparr>,
                \<lparr>baseid = ''api'', func = PyFunc ''api.conftest'' 1, argnames = []\<rparr>])\<rparr>\<rparr>
   = Inr [TwLine [], TwSep ''-'' ''db'', TwLine ''api/conftest.py:3'', TwLine ''conftest.py:5'']"
proof -
  let ?h = "\<lparr>getcwd = ''/p'', getfile = (\<lambda>f. []), relpath = (\<lambda>p start. p),
      getlocation = (\<lambda>f. [''conftest.py:5'', ''api/conftest.py:3''] ! func_ident f),
      bestrelpath = (\<lambda>p. p), makedirs = (\<lambda>p. None), isdir = (\<lambda>p. True),
      dot_write = (\<lambda>p f. None)\<rparr>"
  let ?o = "\<lparr>option_fixture_name = ''db'', fixture_graph_output_dir = ''artifacts'',
      fixture_graph_output_type = ''png''\<rparr>"
  let ?s = "\<lparr>items = [''api/test_x.py::test_a''],
      fixturemanager = \<lparr>arg2fixturedefs =
          [(''db'', [\<lparr>baseid = [], func = PyFunc ''conftest'' 0, argnames = []\<rparr>,
                    \<lparr>baseid = ''api'', func = PyFunc ''api.conftest'' 1, argnames = []\<rparr>])],
        getfixturedefs = (\<lambda>argname nodeid.
          Some [\<lparr>baseid = [], func = PyFunc ''conftest'' 0, argnames = []\<rparr>,
                \<lparr>baseid = ''api'', func = PyFunc ''api.conftest'' 1, argnames = []\<rparr>])\<rparr>\<rparr>"
  let ?av = "[(''db'',
           [(0::nat, ''conftest'', ''conftest.py:5'',
               \<lparr>baseid = [], func = PyFunc ''conftest'' 0, argnames = []\<rparr>),
            (3, ''api.conftest'', ''api/conftest.py:3'',
               \<lparr>baseid = ''api'', func = PyFunc ''api.conftest'' 1, argnames = []\<rparr>)])]"
  have c: "collect_available ?h ''db'' ?s = Inr ?av" by code_simp
  have hyp: "option_fixture_name ?o \<noteq> []
     \<and> option_fixture_name ?o \<in> set (map fst (arg2fixturedefs (fixturemanager ?s)))
     \<and> collect_available ?h (option_fixture_name ?o) ?s = Inr ?av"
    using c by simp
  have p: "print_duplicates ''db'' (avail_get ?av ''db'') None
      = Inr [TwLine [], TwSep ''-'' ''db'', TwLine ''api/conftest.py:3'', TwLine ''conftest.py:5'']"
    by code_simp
  from filter_mode_keeps_gate [THEN mp, OF hyp, THEN conjunct2, THEN conjunct1]
  have "show_fixture_duplicates_main ?h ?o ?s = print_duplicates ''db'' (avail_get ?av ''db'') None"
    by simp
  then show ?thesis using p by simp
qed

text \<open>
  The claim as stated fails with the filter \<^verbatim>\<open>db\<close> and a single definition of
  \<^verbatim>\<open>db\<close>: the name is registered, its group has exactly one member, and nothing is
  printed.
\<close>

theorem filter_mode_single_member_counterexample:
  "''db'' \<in> set (map fst [(''db'', [\<lparr>baseid = [], func = PyFunc ''conftest'' 0, argnames = []\<rparr>])])
   \<and> collect_available
     \<lparr>getcwd = ''/p'', getfile = (\<lambda>f. []), relpath = (\<lambda>p start. p),
      getlocation = (\<lambda>f. ''conftest.py:5''),
      bestrelpath = (\<lambda>p. p), makedirs = (\<lambda>p. None), isdir = (\<lambda>p. True),
      dot_write = (\<lambda>p f. None)\<rparr>
     ''db''
     \<lparr>items = [''test_x.py::test_a''],
      fixturemanager = \<lparr>arg2fixturedefs =
          [(''db'', [\<lparr>baseid = [], func = PyFunc ''conftest'' 0, argnames = []\<rparr>])],
        getfixturedefs = (\<lambda>argname nodeid.
          Some [\<lparr>baseid = [], func = PyFunc ''conftest'' 0, argnames = []\<rparr>])\<rparr>\<rparr>
     = Inr [(''db'', [(0, ''conftest'', ''conftest.py:5'',
                       \<lparr>baseid = [], func = PyFunc ''conftest'' 0, argnames = []\<rparr>)])]
   \<and> show_fixture_duplicates_main
     \<lparr>getcwd = ''/p'', getfile = (\<lambda>f. []), relpath = (\<lambda>p start. p),
      getlocation = (\<lambda>f. ''conftest.py:5''),
      bestrelpath = (\<lambda>p. p), makedirs = (\<lambda>p. None), isdir = (\<lambda>p. True),
      dot_write = (\<lambda>p f. None)\<rparr>
     \<lparr>option_fixture_name = ''db'', fixture_graph_output_dir = ''artifacts'',
      fixture_graph_output_type = ''png''\<rparr>
     \<lparr>items = [''test_x.py::test_a''],
      fixturemanager = \<lparr>arg2fixturedefs =
          [(''db'', [\<lparr>baseid = [], func = PyFunc ''conftest'' 0, argnames = []\<rparr>])],
        getfixturedefs = (\<lambda>argname nodeid.
          Some [\<lparr>baseid = [], func = PyFunc ''conftest'' 0, argnames = []\<rparr>])\<rparr>\<rparr>
     = Inr []"
  by code_simp




section \<open>Properties of the fixture graph\<close>

lemma add_fixture_def_eq:
  "add_fixture_def h reg (getcwd h @ [sep]) name fd data =
     data_set (cluster_of h fd) name (resolved_deps h reg name fd, ''green'') data"
  by (simp add: add_fixture_def_def cluster_of_def resolved_deps_def Let_def)

lemma set_update_subset: "set (AList.update k v al) \<subseteq> insert (k, v) (set al)"
  by (induction al) auto

lemma update_mem: "(k, v) \<in> set (AList.update k v al)"
  by (induction al) auto

lemma update_other: "(k', v') \<in> set al \<Longrightarrow> k' \<noteq> k \<Longrightarrow> (k', v') \<in> set (AList.update k v al)"
  by (induction al) auto

lemma data_get_mem:
  "\<exists>sub. (c, sub) \<in> set data \<and> (n, v) \<in> set sub" if "(n, v) \<in> set (data_get data c)"
proof (cases "map_of data c")
  case None
  then show ?thesis using that by (simp add: data_get_def)
next
  case (Some sub)
  then have "(c, sub) \<in> set data" by (rule map_of_SomeD)
  then show ?thesis using that Some by (auto simp: data_get_def)
qed

lemma data_get_distinct: "distinct (map fst data) \<Longrightarrow> (c, sub) \<in> set data \<Longrightarrow> data_get data c = sub"
  by (simp add: data_get_def)

lemma distinct_data_set: "distinct (map fst data) \<Longrightarrow> distinct (map fst (data_set c n v data))"
  by (simp add: data_set_def distinct_update)

lemma data_deps_data_set:
  "data_deps (data_set c n (ds, col) data) \<subseteq> insert (c, n, ds) (data_deps data)"
proof
  fix x assume "x \<in> data_deps (data_set c n (ds, col) data)"
  then obtain c' n' ds' sub col' where x: "x = (c', n', ds')"
    and sub: "(c', sub) \<in> set (AList.update c (AList.update n (ds, col) (data_get data c)) data)"
    and ent: "(n', ds', col') \<in> set sub"
    by (auto simp: data_deps_def data_set_def)
  from sub set_update_subset
  have "(c', sub) = (c, AList.update n (ds, col) (data_get data c)) \<or> (c', sub) \<in> set data"
    by fastforce
  then show "x \<in> insert (c, n, ds) (data_deps data)"
  proof
    assume eq: "(c', sub) = (c, AList.update n (ds, col) (data_get data c))"
    with ent set_update_subset [of n "(ds, col)" "data_get data c"]
    have "(n', ds', col') = (n, ds, col) \<or> (n', ds', col') \<in> set (data_get data c)"
      by auto
    then show ?thesis
      using eq x data_get_mem [of n' "(ds', col')" data c] by (auto simp: data_deps_def)
  next
    assume "(c', sub) \<in> set data"
    then show ?thesis using x ent by (auto simp: data_deps_def)
  qed
qed

lemma data_nodes_data_set:
  assumes "distinct (map fst data)"
  shows "data_nodes (data_set c n v data) = insert (c, n) (data_nodes data)"
proof (intro equalityI subsetI)
  fix x assume "x \<in> data_nodes (data_set c n v data)"
  then obtain c' n' sub where x: "x = (c', n')"
    and sub: "(c', sub) \<in> set (AList.update c (AList.update n v (data_get data c)) data)"
    and ent: "n' \<in> fst ` set sub"
    by (auto simp: data_nodes_def data_set_def)
  from sub set_update_subset
  have "(c', sub) = (c, AList.update n v (data_get data c)) \<or> (c', sub) \<in> set data"
    by fastforce
  then show "x \<in> insert (c, n) (data_nodes data)"
  proof
    assume eq: "(c', sub) = (c, AList.update n v (data_get data c))"
    with ent have "n' = n \<or> n' \<in> fst ` set (data_get data c)"
      by (auto simp: dom_update)
    then show ?thesis
    proof
      assume "n' = n"
      then show ?thesis using eq x by simp
    next
      assume "n' \<in> fst ` set (data_get data c)"
      then obtain v' where "(n', v') \<in> set (data_get data c)" by auto
      from data_get_mem [OF this] obtain sub0 where "(c, sub0) \<in> set data" "(n', v') \<in> set sub0"
        by blast
      then have "(c, n') \<in> data_nodes data"
        by (force simp: data_nodes_def)
      then show ?thesis using eq x by simp
    qed
  next
    assume "(c', sub) \<in> set data"
    then show ?thesis using x ent by (auto simp: data_nodes_def)
  qed
next
  fix x assume "x \<in> insert (c, n) (data_nodes data)"
  then consider (new) "x = (c, n)" | (old) "x \<in> data_nodes data" by blast
  then show "x \<in> data_nodes (data_set c n v data)"
  proof cases
    case new
    have "(c, AList.update n v (data_get data c)) \<in> set (data_set c n v data)"
      by (simp add: data_set_def update_mem)
    moreover have "n \<in> fst ` set (AList.update n v (data_get data c))"
      by (simp add: dom_update)
    ultimately show ?thesis using new by (auto simp: data_nodes_def)
  next
    case old
    then obtain c' n' sub where x: "x = (c', n')" and sub: "(c', sub) \<in> set data"
      and ent: "n' \<in> fst ` set sub"
      by (auto simp: data_nodes_def)
    show ?thesis
    proof (cases "c' = c")
      case True
      then have "data_get data c = sub" using assms sub by (simp add: data_get_distinct)
      then have "n' \<in> fst ` set (AList.update n v (data_get data c))"
        using ent by (simp add: dom_update)
      moreover have "(c, AList.update n v (data_get data c)) \<in> set (data_set c n v data)"
        by (simp add: data_set_def update_mem)
      ultimately show ?thesis using x True by (auto simp: data_nodes_def)
    next
      case False
      then have "(c', sub) \<in> set (data_set c n v data)"
        using sub by (simp add: data_set_def update_other)
      then show ?thesis using x ent by (auto simp: data_nodes_def)
    qed
  qed
qed


lemma nodes_step: "N1 = insert x N0 \<Longrightarrow> NF = N1 \<union> S \<Longrightarrow> NF = N0 \<union> insert x S"
  by blast

lemma deps_step: "V1 \<subseteq> insert y V0 \<Longrightarrow> VF \<subseteq> V1 \<union> T \<Longrightarrow> VF \<subseteq> V0 \<union> insert y T"
  by blast

lemma nodes_union: "N1 = N0 \<union> A \<Longrightarrow> NF = N1 \<union> B \<Longrightarrow> NF = N0 \<union> (A \<union> B)"
  by blast

lemma deps_union: "V1 \<subseteq> V0 \<union> A \<Longrightarrow> VF \<subseteq> V1 \<union> B \<Longrightarrow> VF \<subseteq> V0 \<union> (A \<union> B)"
  by blast

lemma fold_add_fixture_def:
  assumes "distinct (map fst data)"
  shows "distinct (map fst (fold (add_fixture_def h reg (getcwd h @ [sep]) name) defs data))
    \<and> data_nodes (fold (add_fixture_def h reg (getcwd h @ [sep]) name) defs data)
        = data_nodes data \<union> {(cluster_of h fd, name) | fd. fd \<in> set defs}
    \<and> data_deps (fold (add_fixture_def h reg (getcwd h @ [sep]) name) defs data)
        \<subseteq> data_deps data \<union> {(cluster_of h fd, name, resolved_deps h reg name fd) | fd. fd \<in> set defs}"
  using assms
proof (induction defs arbitrary: data)
  case Nil
  then show ?case by simp
next
  case (Cons fd defs)
  let ?d1 = "data_set (cluster_of h fd) name (resolved_deps h reg name fd, ''green'') data"
  have d1: "distinct (map fst ?d1)" using Cons.prems by (rule distinct_data_set)
  have n1: "data_nodes ?d1 = insert (cluster_of h fd, name) (data_nodes data)"
    using Cons.prems by (rule data_nodes_data_set)
  have v1: "data_deps ?d1 \<subseteq> insert (cluster_of h fd, name, resolved_deps h reg name fd) (data_deps data)"
    by (rule data_deps_data_set)
  note ih = Cons.IH [OF d1]
  have step: "fold (add_fixture_def h reg (getcwd h @ [sep]) name) (fd # defs) data
      = fold (add_fixture_def h reg (getcwd h @ [sep]) name) defs ?d1"
    by (simp add: add_fixture_def_eq)
  have S: "{(cluster_of h fd', name) | fd'. fd' \<in> set (fd # defs)}
      = insert (cluster_of h fd, name) {(cluster_of h fd', name) | fd'. fd' \<in> set defs}"
    by auto
  have T: "{(cluster_of h fd', name, resolved_deps h reg name fd') | fd'. fd' \<in> set (fd # defs)}
      = insert (cluster_of h fd, name, resolved_deps h reg name fd)
          {(cluster_of h fd', name, resolved_deps h reg name fd') | fd'. fd' \<in> set defs}"
    by auto
  have a: "distinct (map fst (fold (add_fixture_def h reg (getcwd h @ [sep]) name) defs ?d1))"
    using ih by simp
  have b: "data_nodes (fold (add_fixture_def h reg (getcwd h @ [sep]) name) defs ?d1)
        = data_nodes data \<union> {(cluster_of h fd', name) | fd'. fd' \<in> set (fd # defs)}"
    unfolding S by (rule nodes_step [OF n1]) (rule ih [THEN conjunct2, THEN conjunct1])
  have c: "data_deps (fold (add_fixture_def h reg (getcwd h @ [sep]) name) defs ?d1)
        \<subseteq> data_deps data
          \<union> {(cluster_of h fd', name, resolved_deps h reg name fd') | fd'. fd' \<in> set (fd # defs)}"
    unfolding T by (rule deps_step [OF v1]) (rule ih [THEN conjunct2, THEN conjunct2])
  show ?case
    unfolding step using a b c by (intro conjI)
qed

lemma fold_add_fixture_defs:
  assumes "distinct (map fst data)"
  shows "distinct (map fst (fold (add_fixture_defs h reg (getcwd h @ [sep])) es data))
    \<and> data_nodes (fold (add_fixture_defs h reg (getcwd h @ [sep])) es data)
        = data_nodes data
          \<union> {(cluster_of h fd, name) | name defs fd.
               (name, defs) \<in> set es \<and> name \<noteq> ''request'' \<and> fd \<in> set defs}
    \<and> data_deps (fold (add_fixture_defs h reg (getcwd h @ [sep])) es data)
        \<subseteq> data_deps data
          \<union> {(cluster_of h fd, name, resolved_deps h reg name fd) | name defs fd.
               (name, defs) \<in> set es \<and> name \<noteq> ''request'' \<and> fd \<in> set defs}"
  using assms
proof (induction es arbitrary: data)
  case Nil
  then show ?case by simp
next
  case (Cons e es)
  obtain name defs where e: "e = (name, defs)" by (cases e)
  let ?d1 = "add_fixture_defs h reg (getcwd h @ [sep]) e data"
  let ?N = "\<lambda>es. {(cluster_of h fd, name) | name defs fd.
               (name, defs) \<in> set es \<and> name \<noteq> ''request'' \<and> fd \<in> set defs}"
  let ?V = "\<lambda>es. {(cluster_of h fd, name, resolved_deps h reg name fd) | name defs fd.
               (name, defs) \<in> set es \<and> name \<noteq> ''request'' \<and> fd \<in> set defs}"
  have step: "fold (add_fixture_defs h reg (getcwd h @ [sep])) (e # es) data
      = fold (add_fixture_defs h reg (getcwd h @ [sep])) es ?d1"
    by simp
  show ?case
  proof (cases "name = ''request''")
    case True
    then have d1: "?d1 = data" using e by (simp add: add_fixture_defs_def)
    have N: "?N (e # es) = ?N es" using e True by auto
    have V: "?V (e # es) = ?V es" using e True by auto
    from Cons.IH [OF Cons.prems] show ?thesis
      unfolding step d1 N V .
  next
    case False
    then have d1: "?d1 = fold (add_fixture_def h reg (getcwd h @ [sep]) name) defs data"
      using e by (simp add: add_fixture_defs_def)
    note f = fold_add_fixture_def [OF Cons.prems, of h reg name defs, folded d1]
    have dist: "distinct (map fst ?d1)" using f by (rule conjunct1)
    note ih = Cons.IH [OF dist]
    have N: "?N (e # es) = {(cluster_of h fd, name) | fd. fd \<in> set defs} \<union> ?N es"
      using e False by auto
    have V: "?V (e # es)
        = {(cluster_of h fd, name, resolved_deps h reg name fd) | fd. fd \<in> set defs} \<union> ?V es"
      using e False by auto
    have a: "distinct (map fst (fold (add_fixture_defs h reg (getcwd h @ [sep])) es ?d1))"
      using ih by (rule conjunct1)
    have b: "data_nodes (fold (add_fixture_defs h reg (getcwd h @ [sep])) es ?d1)
        = data_nodes data \<union> ?N (e # es)"
      unfolding N
      by (rule nodes_union [OF f [THEN conjunct2, THEN conjunct1] ih [THEN conjunct2, THEN conjunct1]])
    have c: "data_deps (fold (add_fixture_defs h reg (getcwd h @ [sep])) es ?d1)
        \<subseteq> data_deps data \<union> ?V (e # es)"
      unfolding V
      by (rule deps_union [OF f [THEN conjunct2, THEN conjunct2] ih [THEN conjunct2, THEN conjunct2]])
    show ?thesis
      unfolding step using a b c by (intro conjI)
  qed
qed


lemma node_edges_refs:
  assumes "\<forall>d \<in> set ds. \<exists>dc dn. d = NodeRef dc dn"
  shows "\<exists>es. node_edges src ds = Inr es
     \<and> set es = {(src, dc @ ''/'' @ dn) | dc dn. NodeRef dc dn \<in> set ds \<and> dn \<noteq> []}"
  using assms
proof (induction ds)
  case Nil
  show ?case by simp
next
  case (Cons d ds)
  then obtain dc dn where d: "d = NodeRef dc dn" by auto
  from Cons obtain es where es: "node_edges src ds = Inr es"
    "set es = {(src, dc @ ''/'' @ dn) | dc dn. NodeRef dc dn \<in> set ds \<and> dn \<noteq> []}"
    by auto
  have r: "node_edges src (d # ds) = Inr (if dn = [] then es else (src, dc @ ''/'' @ dn) # es)"
    using d es(1) by simp
  have "set (if dn = [] then es else (src, dc @ ''/'' @ dn) # es)
      = {(src, dc' @ ''/'' @ dn') | dc' dn'. NodeRef dc' dn' \<in> set (d # ds) \<and> dn' \<noteq> []}"
    using d es(2) by auto
  then show ?case using r by blast
qed

lemma cluster_nodes_refs:
  assumes "\<forall>(n, ds, col) \<in> set sub. \<forall>d \<in> set ds. \<exists>dc dn. d = NodeRef dc dn"
  shows "\<exists>ns es. cluster_nodes c sub = Inr (ns, es)
     \<and> node_name ` set ns = {c @ ''/'' @ n | n. n \<in> fst ` set sub}
     \<and> set es = {(c @ ''/'' @ n, dc @ ''/'' @ dn) | n ds col dc dn.
                   (n, ds, col) \<in> set sub \<and> NodeRef dc dn \<in> set ds \<and> dn \<noteq> []}"
  using assms
proof (induction sub)
  case Nil
  show ?case by simp
next
  case (Cons x sub)
  obtain n ds col where x: "x = (n, ds, col)" by (cases x)
  have "\<forall>d \<in> set ds. \<exists>dc dn. d = NodeRef dc dn" using Cons.prems x by auto
  from node_edges_refs [OF this, of "c @ ''/'' @ n"]
  obtain es1 where es1: "node_edges (c @ ''/'' @ n) ds = Inr es1"
    "set es1 = {(c @ ''/'' @ n, dc @ ''/'' @ dn) | dc dn. NodeRef dc dn \<in> set ds \<and> dn \<noteq> []}"
    by blast
  from Cons obtain ns es where rest: "cluster_nodes c sub = Inr (ns, es)"
    "node_name ` set ns = {c @ ''/'' @ n | n. n \<in> fst ` set sub}"
    "set es = {(c @ ''/'' @ n, dc @ ''/'' @ dn) | n ds col dc dn.
                   (n, ds, col) \<in> set sub \<and> NodeRef dc dn \<in> set ds \<and> dn \<noteq> []}"
    by auto
  let ?nd = "\<lparr>node_name = c @ ''/'' @ n, node_label = n, fillcolor = col\<rparr>"
  have r: "cluster_nodes c (x # sub) = Inr (?nd # ns, es1 @ es)"
    using x es1(1) rest(1) by simp
  have a: "node_name ` set (?nd # ns) = {c @ ''/'' @ n | n. n \<in> fst ` set (x # sub)}"
    using x rest(2) by auto
  have b: "set (es1 @ es) = {(c @ ''/'' @ n, dc @ ''/'' @ dn) | n ds col dc dn.
                   (n, ds, col) \<in> set (x # sub) \<and> NodeRef dc dn \<in> set ds \<and> dn \<noteq> []}"
    unfolding set_append es1(2) rest(3) using x by auto blast+
  show ?case using r a b by blast
qed


lemma data_nodes_Cons:
  "data_nodes ((c, sub) # data) = {(c, n) | n. n \<in> fst ` set sub} \<union> data_nodes data"
  by (auto simp: data_nodes_def)

lemma data_deps_Cons:
  "data_deps ((c, sub) # data) = {(c, n, ds) | n ds col. (n, ds, col) \<in> set sub} \<union> data_deps data"
  by (auto simp: data_deps_def)

lemma graph_of_data_refs:
  assumes "\<forall>(c, n, ds) \<in> data_deps data. \<forall>d \<in> set ds. \<exists>dc dn. d = NodeRef dc dn"
  shows "\<exists>g. graph_of_data data = Inr g
     \<and> graph_node_names g = {c @ ''/'' @ n | c n. (c, n) \<in> data_nodes data}
     \<and> set (edges g) = {(c @ ''/'' @ n, dc @ ''/'' @ dn) | c n ds dc dn.
                          (c, n, ds) \<in> data_deps data \<and> NodeRef dc dn \<in> set ds \<and> dn \<noteq> []}"
  using assms
proof (induction data)
  case Nil
  show ?case by (simp add: graph_node_names_def data_nodes_def data_deps_def)
next
  case (Cons x data)
  obtain c sub where x: "x = (c, sub)" by (cases x)
  have here: "\<forall>(n, ds, col) \<in> set sub. \<forall>d \<in> set ds. \<exists>dc dn. d = NodeRef dc dn"
  proof (intro ballI, clarify)
    fix n ds col d assume "(n, ds, col) \<in> set sub" "d \<in> set ds"
    then have "(c, n, ds) \<in> data_deps (x # data)" using x by (auto simp: data_deps_Cons)
    then show "\<exists>dc dn. d = NodeRef dc dn" using Cons.prems \<open>d \<in> set ds\<close> by blast
  qed
  have there: "\<forall>(c, n, ds) \<in> data_deps data. \<forall>d \<in> set ds. \<exists>dc dn. d = NodeRef dc dn"
    using Cons.prems x by (simp add: data_deps_Cons)
  from cluster_nodes_refs [OF here, of c]
  obtain ns es where cl: "cluster_nodes c sub = Inr (ns, es)"
    "node_name ` set ns = {c @ ''/'' @ n | n. n \<in> fst ` set sub}"
    "set es = {(c @ ''/'' @ n, dc @ ''/'' @ dn) | n ds col dc dn.
                   (n, ds, col) \<in> set sub \<and> NodeRef dc dn \<in> set ds \<and> dn \<noteq> []}"
    by (elim exE conjE) (rule that)
  from Cons.IH [OF there]
  obtain g where g: "graph_of_data data = Inr g"
    "graph_node_names g = {c @ ''/'' @ n | c n. (c, n) \<in> data_nodes data}"
    "set (edges g) = {(c @ ''/'' @ n, dc @ ''/'' @ dn) | c n ds dc dn.
                          (c, n, ds) \<in> data_deps data \<and> NodeRef dc dn \<in> set ds \<and> dn \<noteq> []}"
    by (elim exE conjE) (rule that)
  let ?g = "\<lparr>subgraphs = (c, ns) # subgraphs g, edges = es @ edges g\<rparr>"
  have r: "graph_of_data (x # data) = Inr ?g"
    using x cl(1) g(1) by simp
  have "graph_node_names ?g = node_name ` set ns \<union> graph_node_names g"
    by (auto simp: graph_node_names_def)
  also have "\<dots> = {c' @ ''/'' @ n | c' n. (c', n) \<in> data_nodes (x # data)}"
    unfolding cl(2) g(2) x data_nodes_Cons by auto
  finally have a: "graph_node_names ?g = {c' @ ''/'' @ n | c' n. (c', n) \<in> data_nodes (x # data)}" .
  have "set (edges ?g) = set es \<union> set (edges g)" by simp
  also have "\<dots> = {(c' @ ''/'' @ n, dc @ ''/'' @ dn) | c' n ds dc dn.
                          (c', n, ds) \<in> data_deps (x # data) \<and> NodeRef dc dn \<in> set ds \<and> dn \<noteq> []}"
    unfolding cl(3) g(3) x data_deps_Cons by auto blast+
  finally have b: "set (edges ?g) = {(c' @ ''/'' @ n, dc @ ''/'' @ dn) | c' n ds dc dn.
                          (c', n, ds) \<in> data_deps (x # data) \<and> NodeRef dc dn \<in> set ds \<and> dn \<noteq> []}" .
  show ?case by (intro exI [of _ ?g] conjI) (rule r, rule a, rule b)
qed

lemma resolved_deps_refs: "d \<in> set (resolved_deps h reg name fd) \<Longrightarrow> \<exists>dc dn. d = NodeRef dc dn"
  by (auto simp: resolved_deps_def get_fixture_node_name_def split: option.splits)

lemma resolved_deps_edge:
  assumes "NodeRef dc dn \<in> set (resolved_deps h reg name fd)" "dn \<noteq> []"
  shows "\<exists>fd'. dn \<in> set (argnames fd)
      \<and> find_fixture_def name (getfile h (func fd)) dn (map_of reg) (getfile h) = Some fd'
      \<and> dc = cluster_of h fd'"
  using assms
  by (auto simp: resolved_deps_def get_fixture_node_name_def cluster_of_def split: option.splits)

lemma find_fixture_def_registered:
  assumes "find_fixture_def r L w (map_of reg) get_func_path = Some fd'"
  shows "\<exists>defs. (w, defs) \<in> set reg \<and> fd' \<in> set defs"
proof -
  from assms obtain defs where defs: "map_of reg w = Some defs"
    by (auto simp: find_fixture_def_unfold split: option.splits)
  with assms obtain rest where
    "py_sorted (sort_key_fd (find_search_order r L w) get_func_path) defs = fd' # rest"
    by (auto simp: find_fixture_def_unfold split: list.splits)
  from py_sorted_head [OF this] have "fd' \<in> set defs" by simp
  then show ?thesis using defs map_of_SomeD by fastforce
qed


lemma data_nodes_Nil: "data_nodes [] = {}"
  by (simp add: data_nodes_def)

lemma data_deps_Nil: "data_deps [] = {}"
  by (simp add: data_deps_def)

lemma fixture_graph_data_no_args:
  assumes "func_args = None \<or> func_args = Some []"
  shows "fixture_graph_data h reg func_args = fold (add_fixture_defs h reg (getcwd h @ [sep])) reg []"
  using assms by (auto simp: fixture_graph_data_def Let_def)

text \<open>
  Claim C6, as the code has it. When \<^verbatim>\<open>save_fixture_graph\<close> is called without
  \<open>func_args\<close> (\<open>None\<close> or empty), the graph is built without an exception. Its nodes
  are the definitions of the registry under every name but \<^verbatim>\<open>request\<close>, each named
  by its cluster and its name. Every edge comes from an argument name of such a
  definition that the resolution maps to a definition: an argument that resolves to
  nothing gives no edge. The source of an edge is a node of the graph, and so is its
  target unless the argument is \<^verbatim>\<open>request\<close>, for which no node is made.
\<close>

theorem graph_edges_resolved:
  "func_args = None \<or> func_args = Some [] \<longrightarrow>
     (\<exists>g. build_fixture_graph h reg func_args = Inr g
        \<and> graph_node_names g =
            {cluster_of h fd @ ''/'' @ name | name defs fd.
               (name, defs) \<in> set reg \<and> name \<noteq> ''request'' \<and> fd \<in> set defs}
        \<and> (\<forall>e \<in> set (edges g).
              fst e \<in> graph_node_names g
              \<and> (\<exists>name defs fd argname fd'.
                    (name, defs) \<in> set reg \<and> name \<noteq> ''request'' \<and> fd \<in> set defs
                    \<and> argname \<in> set (argnames fd) \<and> argname \<noteq> []
                    \<and> find_fixture_def name (getfile h (func fd)) argname (map_of reg) (getfile h)
                        = Some fd'
                    \<and> fst e = cluster_of h fd @ ''/'' @ name
                    \<and> snd e = cluster_of h fd' @ ''/'' @ argname
                    \<and> (argname \<noteq> ''request'' \<longrightarrow> snd e \<in> graph_node_names g))))"
proof
  assume no_args: "func_args = None \<or> func_args = Some []"
  let ?data = "fold (add_fixture_defs h reg (getcwd h @ [sep])) reg []"
  let ?N = "{(cluster_of h fd, name) | name defs fd.
               (name, defs) \<in> set reg \<and> name \<noteq> ''request'' \<and> fd \<in> set defs}"
  let ?V = "{(cluster_of h fd, name, resolved_deps h reg name fd) | name defs fd.
               (name, defs) \<in> set reg \<and> name \<noteq> ''request'' \<and> fd \<in> set defs}"
  let ?names = "{cluster_of h fd @ ''/'' @ name | name defs fd.
               (name, defs) \<in> set reg \<and> name \<noteq> ''request'' \<and> fd \<in> set defs}"
  have inv: "distinct (map fst ?data) \<and> data_nodes ?data = data_nodes [] \<union> ?N
      \<and> data_deps ?data \<subseteq> data_deps [] \<union> ?V"
    by (rule fold_add_fixture_defs) simp
  have nodes: "data_nodes ?data = ?N"
    using inv unfolding data_nodes_Nil by simp
  have deps: "data_deps ?data \<subseteq> ?V"
    using inv unfolding data_deps_Nil by simp
  have refs: "\<forall>(c, n, ds) \<in> data_deps ?data. \<forall>d \<in> set ds. \<exists>dc dn. d = NodeRef dc dn"
  proof (intro ballI, clarify)
    fix c n ds d assume m: "(c, n, ds) \<in> data_deps ?data" and d: "d \<in> set ds"
    from deps m have "(c, n, ds) \<in> ?V" by (rule subsetD)
    then obtain name fd where "ds = resolved_deps h reg name fd" by blast
    then show "\<exists>dc dn. d = NodeRef dc dn" using d resolved_deps_refs by blast
  qed
  from graph_of_data_refs [OF refs]
  obtain g where g: "graph_of_data ?data = Inr g"
    "graph_node_names g = {c @ ''/'' @ n | c n. (c, n) \<in> data_nodes ?data}"
    "set (edges g) = {(c @ ''/'' @ n, dc @ ''/'' @ dn) | c n ds dc dn.
                          (c, n, ds) \<in> data_deps ?data \<and> NodeRef dc dn \<in> set ds \<and> dn \<noteq> []}"
    by (elim exE conjE) (rule that)
  have built: "build_fixture_graph h reg func_args = Inr g"
    using g(1) by (simp add: build_fixture_graph_def fixture_graph_data_no_args [OF no_args])
  have names: "graph_node_names g = ?names"
    unfolding g(2) nodes by blast
  have edge: "fst e \<in> graph_node_names g
      \<and> (\<exists>name defs fd argname fd'.
            (name, defs) \<in> set reg \<and> name \<noteq> ''request'' \<and> fd \<in> set defs
            \<and> argname \<in> set (argnames fd) \<and> argname \<noteq> []
            \<and> find_fixture_def name (getfile h (func fd)) argname (map_of reg) (getfile h) = Some fd'
            \<and> fst e = cluster_of h fd @ ''/'' @ name
            \<and> snd e = cluster_of h fd' @ ''/'' @ argname
            \<and> (argname \<noteq> ''request'' \<longrightarrow> snd e \<in> graph_node_names g))"
    if e: "e \<in> set (edges g)" for e
  proof -
    from e obtain c n ds dc dn where
      e_eq: "e = (c @ ''/'' @ n, dc @ ''/'' @ dn)" and m: "(c, n, ds) \<in> data_deps ?data"
      and r: "NodeRef dc dn \<in> set ds" and ne: "dn \<noteq> []"
      unfolding g(3) by blast
    from deps m have "(c, n, ds) \<in> ?V" by (rule subsetD)
    then obtain name defs fd where v: "c = cluster_of h fd" "n = name"
      "ds = resolved_deps h reg name fd" "(name, defs) \<in> set reg" "name \<noteq> ''request''"
      "fd \<in> set defs"
      by blast
    from resolved_deps_edge [OF r [unfolded v(3)] ne]
    obtain fd' where f: "dn \<in> set (argnames fd)"
      "find_fixture_def name (getfile h (func fd)) dn (map_of reg) (getfile h) = Some fd'"
      "dc = cluster_of h fd'"
      by blast
    from find_fixture_def_registered [OF f(2)]
    obtain defs' where reg': "(dn, defs') \<in> set reg" "fd' \<in> set defs'" by blast
    have src: "fst e \<in> graph_node_names g"
      unfolding names using e_eq v by auto
    have dst: "dn \<noteq> ''request'' \<longrightarrow> snd e \<in> graph_node_names g"
      unfolding names using e_eq f(3) reg' by auto
    show ?thesis
      using src dst v f ne e_eq by (intro conjI exI [of _ name] exI [of _ defs] exI [of _ fd]
          exI [of _ dn] exI [of _ fd']) auto
  qed
  show "\<exists>g. build_fixture_graph h reg func_args = Inr g
        \<and> graph_node_names g = ?names
        \<and> (\<forall>e \<in> set (edges g).
              fst e \<in> graph_node_names g
              \<and> (\<exists>name defs fd argname fd'.
                    (name, defs) \<in> set reg \<and> name \<noteq> ''request'' \<and> fd \<in> set defs
                    \<and> argname \<in> set (argnames fd) \<and> argname \<noteq> []
                    \<and> find_fixture_def name (getfile h (func fd)) argname (map_of reg) (getfile h)
                        = Some fd'
                    \<and> fst e = cluster_of h fd @ ''/'' @ name
                    \<and> snd e = cluster_of h fd' @ ''/'' @ argname
                    \<and> (argname \<noteq> ''request'' \<longrightarrow> snd e \<in> graph_node_names g)))"
    by (intro exI [of _ g] conjI ballI) (rule built, rule names, (rule edge [THEN conjunct1], assumption),
      (rule edge [THEN conjunct2], assumption))
qed


lemmas graph_eval =
  build_fixture_graph_def fixture_graph_data_def add_fixture_defs_def add_fixture_def_def
  data_set_def data_get_def get_fixture_node_name_def get_cluster_name_def startswith_def
  find_fixture_def_def py_sorted_def sep_def Let_def

text \<open>
  The registry of \<^verbatim>\<open>db\<close> in \<^verbatim>\<open>/root/conftest\<close> and \<^verbatim>\<open>client\<close>, which
  depends on \<^verbatim>\<open>db\<close>, in \<^verbatim>\<open>/root/api/conftest\<close>, with \<^verbatim>\<open>/root\<close> as working
  directory and no \<open>func_args\<close>: two nodes and the edge from \<^verbatim>\<open>client\<close> to
  \<^verbatim>\<open>db\<close>, both ends being nodes.
\<close>

theorem graph_edges_resolved_witness:
  "build_fixture_graph
     \<lparr>getcwd = ''/root'',
      getfile = (\<lambda>f. [''/root/conftest'', ''/root/api/conftest''] ! func_ident f),
      relpath = (\<lambda>p start. drop (length start) p),
      getlocation = (\<lambda>f. []), bestrelpath = (\<lambda>p. p), makedirs = (\<lambda>p. None),
      isdir = (\<lambda>p. True), dot_write = (\<lambda>p f. None)\<rparr>
     [(''db'', [\<lparr>baseid = [], func = PyFunc ''conftest'' 0, argnames = []\<rparr>]),
      (''client'', [\<lparr>baseid = ''api'', func = PyFunc ''api.conftest'' 1, argnames = [''db'']\<rparr>])]
     None
   = Inr \<lparr>subgraphs =
            [(''conftest'',
              [\<lparr>node_name = ''conftest/db'', node_label = ''db'', fillcolor = ''green''\<rparr>]),
             (''api/conftest'',
              [\<lparr>node_name = ''api/conftest/client'', node_label = ''client'',
                fillcolor = ''green''\<rparr>])],
          edges = [(''api/conftest/client'', ''conftest/db'')]\<rparr>
   \<and> ''api/conftest/client'' \<in> graph_node_names
       \<lparr>subgraphs =
            [(''conftest'',
              [\<lparr>node_name = ''conftest/db'', node_label = ''db'', fillcolor = ''green''\<rparr>]),
             (''api/conftest'',
              [\<lparr>node_name = ''api/conftest/client'', node_label = ''client'',
                fillcolor = ''green''\<rparr>])],
          edges = [(''api/conftest/client'', ''conftest/db'')]\<rparr>"
  (is "?built \<and> ?src")
proof -
  let ?h = "\<lparr>getcwd = ''/root'',
      getfile = (\<lambda>f. [''/root/conftest'', ''/root/api/conftest''] ! func_ident f),
      relpath = (\<lambda>p start. drop (length start) p),
      getlocation = (\<lambda>f. []), bestrelpath = (\<lambda>p. p), makedirs = (\<lambda>p. None),
      isdir = (\<lambda>p. True), dot_write = (\<lambda>p f. None)\<rparr>"
  let ?reg = "[(''db'', [\<lparr>baseid = [], func = PyFunc ''conftest'' 0, argnames = []\<rparr>]),
      (''client'', [\<lparr>baseid = ''api'', func = PyFunc ''api.conftest'' 1, argnames = [''db'']\<rparr>])]"
  let ?g = "\<lparr>subgraphs =
            [(''conftest'',
              [\<lparr>node_name = ''conftest/db'', node_label = ''db'', fillcolor = ''green''\<rparr>]),
             (''api/conftest'',
              [\<lparr>node_name = ''api/conftest/client'', node_label = ''client'',
                fillcolor = ''green''\<rparr>])],
          edges = [(''api/conftest/client'', ''conftest/db'')]\<rparr>"
  have built: ?built by (simp add: graph_eval)
  have no_args: "(None :: string list option) = None \<or> (None :: string list option) = Some []"
    by simp
  note inst = graph_edges_resolved [where h = ?h and reg = ?reg and func_args = None,
    THEN mp, OF no_args]
  have ?src
    using inst unfolding built by (elim exE conjE) simp
  then show ?thesis using built by blast
qed

text \<open>
  The claim as stated fails when the registry holds \<^verbatim>\<open>request\<close> itself: the
  definition of \<^verbatim>\<open>db\<close> depends on it, the edge is made, and the graph has no node
  for its target.
\<close>

theorem graph_edge_to_request_counterexample:
  "build_fixture_graph
     \<lparr>getcwd = ''/root'',
      getfile = (\<lambda>f. ''/root/conftest''),
      relpath = (\<lambda>p start. drop (length start) p),
      getlocation = (\<lambda>f. []), bestrelpath = (\<lambda>p. p), makedirs = (\<lambda>p. None),
      isdir = (\<lambda>p. True), dot_write = (\<lambda>p f. None)\<rparr>
     [(''request'', [\<lparr>baseid = [], func = PyFunc ''conftest'' 0, argnames = []\<rparr>]),
      (''db'', [\<lparr>baseid = [], func = PyFunc ''conftest'' 1, argnames = [''request'']\<rparr>])]
     None
   = Inr \<lparr>subgraphs =
            [(''conftest'',
              [\<lparr>node_name = ''conftest/db'', node_label = ''db'', fillcolor = ''green''\<rparr>])],
          edges = [(''conftest/db'', ''conftest/request'')]\<rparr>
   \<and> ''conftest/request'' \<notin> graph_node_names
       \<lparr>subgraphs =
            [(''conftest'',
              [\<lparr>node_name = ''conftest/db'', node_label = ''db'', fillcolor = ''green''\<rparr>])],
          edges = [(''conftest/db'', ''conftest/request'')]\<rparr>"
  (is "?built \<and> ?dangling")
proof -
  have built: ?built by (simp add: graph_eval)
  have dangling: ?dangling by (simp add: graph_node_names_def)
  show ?thesis using built dangling by blast
qed

text \<open>
  Claim C5. The scenario of the claim: \<^verbatim>\<open>db\<close> in \<^verbatim>\<open>/root/conftest\<close>,
  \<^verbatim>\<open>client\<close> depending on \<^verbatim>\<open>db\<close> in \<^verbatim>\<open>/root/api/conftest\<close>, and the consumer
  requesting \<^verbatim>\<open>client\<close>. The node of the consumer's requests holds the bare name
  \<^verbatim>\<open>client\<close> where the loop over the edges unpacks a pair: a ValueError leaves
  \<^verbatim>\<open>save_fixture_graph\<close> before anything is written, and no graph is made.
\<close>

theorem per_consumer_graph_raises:
  "save_fixture_graph
     \<lparr>getcwd = ''/root'',
      getfile = (\<lambda>f. [''/root/conftest'', ''/root/api/conftest''] ! func_ident f),
      relpath = (\<lambda>p start. drop (length start) p),
      getlocation = (\<lambda>f. []), bestrelpath = (\<lambda>p. p), makedirs = (\<lambda>p. None),
      isdir = (\<lambda>p. True), dot_write = (\<lambda>p f. None)\<rparr>
     \<lparr>option_fixture_name = [], fixture_graph_output_dir = ''artifacts'',
      fixture_graph_output_type = ''png''\<rparr>
     [(''db'', [\<lparr>baseid = [], func = PyFunc ''conftest'' 0, argnames = []\<rparr>]),
      (''client'', [\<lparr>baseid = ''api'', func = PyFunc ''api.conftest'' 1, argnames = [''db'']\<rparr>])]
     ''fixture-graph-api-test_x.py__test_a''
     (Some [''client''])
   = ([], Some ValueError)"
  by (simp add: save_fixture_graph_def graph_eval)

text \<open>
  A requested name of exactly two characters unpacks into its two characters: the request
  for \<^verbatim>\<open>db\<close> gives an edge from the node of the requests to \<^verbatim>\<open>d/b\<close>.
\<close>

lemma per_consumer_graph_two_letters:
  "build_fixture_graph
     \<lparr>getcwd = ''/root'',
      getfile = (\<lambda>f. ''/root/conftest''),
      relpath = (\<lambda>p start. drop (length start) p),
      getlocation = (\<lambda>f. []), bestrelpath = (\<lambda>p. p), makedirs = (\<lambda>p. None),
      isdir = (\<lambda>p. True), dot_write = (\<lambda>p f. None)\<rparr>
     [(''db'', [\<lparr>baseid = [], func = PyFunc ''conftest'' 0, argnames = []\<rparr>])]
     (Some [''db''])
   = Inr \<lparr>subgraphs =
            [([], [\<lparr>node_name = ''/func_args'', node_label = ''func_args'', fillcolor = ''red''\<rparr>]),
             (''conftest'',
              [\<lparr>node_name = ''conftest/db'', node_label = ''db'', fillcolor = ''green''\<rparr>])],
          edges = [(''/func_args'', ''d/b'')]\<rparr>"
  by (simp add: graph_eval)


section \<open>Properties of the export\<close>







end
